theory Spec2Isabelle
  imports Main "HOL-Library.Word" "HOL-Library.Signed_Division"
begin

unbundle bit_operations_syntax

section \<open>Errors\<close>

text \<open>
  The C and C++ sources guard their preconditions with \<open>assert\<close>; a failed assertion is
  the value \<open>AssertionFailed\<close>. A read through a pointer that leaves the cells the model
  knows (past the initialised elements of an array, or through \<open>NULL\<close>) is undefined in
  the source and is a value of its own here, and so is a loop that never ends.
\<close>

datatype error = AssertionFailed | OutOfBounds | NullPointerDereference | NonTermination

section \<open>vector.c\<close>

text \<open>
  \<open>vector_t\<close> has the fields \<open>array\<close>, \<open>capacity\<close> and \<open>size\<close> (named \<open>size'\<close> here).
  The field \<open>array\<close> is a pointer to cells of type \<open>const void *\<close>; the model keeps the
  list of initialised cells that start at the pointer. For a vector that owns its memory
  these are its \<open>size\<close> elements. The C type \<open>int\<close> is modelled by \<open>int\<close>; no index or
  size computed below leaves the 32-bit range as long as a vector holds fewer than
  \<open>2 ^ 30\<close> elements.
\<close>

record 'a vector_t =
  array :: "'a list"
  capacity :: int
  size' :: int

definition INIT_SIZE :: int where
  "INIT_SIZE = 4"

definition RESIZE_FACTOR :: int where
  "RESIZE_FACTOR = 2"

text \<open>
  \<open>sizeof(void *)\<close>, in bytes. The sources fix no platform; 8 is the value on the
  LP64 platforms the project builds on.
\<close>

definition sizeof_ptr :: nat where
  "sizeof_ptr = 8"

definition vector_init_with_size :: "int \<Rightarrow> error + 'a vector_t" where
  "vector_init_with_size n =
     (if \<not> 0 \<le> n then Inl AssertionFailed
      else Inr \<lparr>array = [], capacity = max n INIT_SIZE, size' = 0\<rparr>)"

definition vector_init :: "error + 'a vector_t" where
  "vector_init = vector_init_with_size INIT_SIZE"

text \<open>
  \<open>vector_sub\<close> builds a view that does not own its memory (\<open>capacity = -1\<close>). Its
  pointer is \<open>src->array + sizeof(void *) * from\<close>: pointer arithmetic on
  \<open>const void **\<close> counts in cells, so the view starts \<open>sizeof(void *) * from\<close> cells
  after the first cell of \<open>src\<close>. With a negative \<open>from\<close> the pointer lies before the
  first cell, outside the array: the view has no cell to read, and every \<open>vector_get\<close>
  on it is out of bounds.
\<close>

definition vector_sub :: "'a vector_t \<Rightarrow> int \<Rightarrow> int \<Rightarrow> 'a vector_t" where
  "vector_sub src from to =
     (let n_new_elems = to - from
      in \<lparr>array = (if from < 0 then [] else drop (sizeof_ptr * nat from) (array src)),
          capacity = - 1,
          size' = n_new_elems\<rparr>)"

text \<open>
  \<open>vector_copy_range\<close> copies \<open>to - from\<close> cells starting at \<open>src->array + from\<close> into
  fresh memory.
\<close>

definition vector_copy_range :: "'a vector_t \<Rightarrow> int \<Rightarrow> int \<Rightarrow> 'a vector_t" where
  "vector_copy_range src from to =
     (let n_new_elems = to - from
      in \<lparr>array = take (nat n_new_elems) (drop (nat from) (array src)),
          capacity = max n_new_elems INIT_SIZE,
          size' = n_new_elems\<rparr>)"

definition vector_copy :: "'a vector_t \<Rightarrow> 'a vector_t" where
  "vector_copy src = vector_copy_range src 0 (size' src)"

definition vector_get :: "'a vector_t \<Rightarrow> int \<Rightarrow> error + 'a" where
  "vector_get vec index =
     (if \<not> (0 \<le> index \<and> index < size' vec) then Inl AssertionFailed
      else if \<not> nat index < length (array vec) then Inl OutOfBounds
      else Inr (array vec ! nat index))"

definition vector_size :: "'a vector_t \<Rightarrow> int" where
  "vector_size vec = size' vec"

definition vector_insert :: "'a vector_t \<Rightarrow> int \<Rightarrow> 'a \<Rightarrow> error + 'a vector_t" where
  "vector_insert vec index elem =
     (if \<not> (0 \<le> index \<and> index \<le> size' vec) then Inl AssertionFailed
      else Inr \<lparr>array = take (nat index) (array vec) @ elem # drop (nat index) (array vec),
               capacity = (if size' vec + 1 \<ge> capacity vec
                           then capacity vec * RESIZE_FACTOR else capacity vec),
               size' = size' vec + 1\<rparr>)"

definition vector_prepend :: "'a vector_t \<Rightarrow> 'a \<Rightarrow> error + 'a vector_t" where
  "vector_prepend vec elem = vector_insert vec 0 elem"






definition vector_clear :: "'a vector_t \<Rightarrow> 'a vector_t" where
  "vector_clear vec = vec\<lparr>size' := 0\<rparr>"

section \<open>set.c\<close>

text \<open>
  A \<open>set_t\<close> is a vector kept sorted by the comparator \<open>compar\<close>, a function pointer
  that returns a negative number, zero or a positive number. \<open>set_union\<close>,
  \<open>set_difference\<close> and \<open>set_intersection\<close> assert \<open>l->compar == r->compar\<close> and work
  with \<open>l->compar\<close>; equality of function pointers is not a computation on the model,
  so the assertion is the side condition of the operations wherever they are used below.
\<close>

record 'a set_t =
  vec :: "'a vector_t"
  compar :: "'a \<Rightarrow> 'a \<Rightarrow> int"

definition set_init :: "('a \<Rightarrow> 'a \<Rightarrow> int) \<Rightarrow> error + 'a set_t" where
  "set_init cmp =
     (case vector_init of
        Inl e \<Rightarrow> Inl e
      | Inr v \<Rightarrow> Inr \<lparr>vec = v, compar = cmp\<rparr>)"


definition set_size :: "'a set_t \<Rightarrow> int" where
  "set_size s = vector_size (vec s)"

definition set_get :: "'a set_t \<Rightarrow> int \<Rightarrow> error + 'a" where
  "set_get s index = vector_get (vec s) index"

text \<open>The loop of \<open>search\<close>; the result \<open>-1\<close> says that no element was found.\<close>

function search_loop :: "'a set_t \<Rightarrow> 'a \<Rightarrow> int \<Rightarrow> int \<Rightarrow> error + int" where
  "search_loop s obj lo hi =
     (if lo \<le> hi then
        (let i = (lo + hi) sdiv 2
         in case vector_get (vec s) i of
              Inl e \<Rightarrow> Inl e
            | Inr x \<Rightarrow>
                (let cmp = compar s obj x
                 in if cmp = 0 then Inr i
                    else if cmp < 0 then search_loop s obj lo (i - 1)
                    else search_loop s obj (i + 1) hi))
      else Inr (- 1))"
  by pat_completeness auto
termination
  by (relation "measure (\<lambda>(s, obj, lo, hi). nat (hi + 1 - lo))")
     (auto simp: signed_divide_int_def sgn_if split: if_splits)

definition search :: "'a set_t \<Rightarrow> 'a \<Rightarrow> error + int" where
  "search s obj = search_loop s obj 0 (vector_size (vec s) - 1)"

text \<open>
  The loop of \<open>insert_pos\<close>; the result \<open>-1\<close> says that the element is present already.
  The second test \<open>cmp <= 0\<close> is reached with \<open>cmp \<noteq> 0\<close> only.
\<close>

function insert_pos_loop :: "'a set_t \<Rightarrow> 'a \<Rightarrow> int \<Rightarrow> int \<Rightarrow> error + int" where
  "insert_pos_loop s obj lo hi =
     (if lo \<le> hi then
        (let i = (lo + hi) sdiv 2
         in case vector_get (vec s) i of
              Inl e \<Rightarrow> Inl e
            | Inr x \<Rightarrow>
                (let cmp = compar s obj x
                 in if cmp = 0 then Inr (- 1)
                    else if cmp \<le> 0 then
                      (if i = 0 then Inr i
                       else case vector_get (vec s) (i - 1) of
                              Inl e \<Rightarrow> Inl e
                            | Inr y \<Rightarrow>
                                if \<not> (compar s obj y \<le> 0) then Inr i
                                else insert_pos_loop s obj lo (i - 1))
                    else insert_pos_loop s obj (i + 1) hi))
      else Inr (vector_size (vec s)))"
  by pat_completeness auto
termination
  by (relation "measure (\<lambda>(s, obj, lo, hi). nat (hi + 1 - lo))")
     (auto simp: signed_divide_int_def sgn_if split: if_splits)

definition insert_pos :: "'a set_t \<Rightarrow> 'a \<Rightarrow> error + int" where
  "insert_pos s obj = insert_pos_loop s obj 0 (vector_size (vec s) - 1)"

definition set_find :: "'a set_t \<Rightarrow> 'a \<Rightarrow> error + int" where
  "set_find s elem = search s elem"

definition set_contains :: "'a set_t \<Rightarrow> 'a \<Rightarrow> error + bool" where
  "set_contains s elem =
     (case set_find s elem of Inl e \<Rightarrow> Inl e | Inr i \<Rightarrow> Inr (i \<noteq> - 1))"

text \<open>
  \<open>set_add\<close> and \<open>set_remove\<close> change the set in place and return a flag; the model
  returns the flag and the set after the call.
\<close>

definition set_add :: "'a set_t \<Rightarrow> 'a \<Rightarrow> error + (bool \<times> 'a set_t)" where
  "set_add s elem =
     (case insert_pos s elem of
        Inl e \<Rightarrow> Inl e
      | Inr i \<Rightarrow>
          if i \<noteq> - 1 then
            (case vector_insert (vec s) i elem of
               Inl e \<Rightarrow> Inl e
             | Inr v \<Rightarrow> Inr (True, s\<lparr>vec := v\<rparr>))
          else Inr (False, s))"










section \<open>clause.c\<close>

text \<open>
  Standard names and variables are integers (\<open>stdname_t\<close>, \<open>var_t\<close>). \<open>stdset_t\<close>,
  \<open>varset_t\<close>, \<open>stdvecset_t\<close> and \<open>setup_t\<close> are the typed instances of \<open>set_t\<close> that
  the macros of set.h declare, and \<open>stdvec_t\<close> is the typed instance of \<open>vector_t\<close>:
  \<open>stdset_get\<close> is \<open>set_get\<close>, \<open>setup_add\<close> is \<open>set_add\<close>, \<open>stdvec_sub\<close> is
  \<open>vector_sub\<close>, and so on. The comparator of a setup compares clauses; its definition is
  not among the sources, and \<open>ground_clauses\<close> takes it as the parameter \<open>clause_cmp\<close>.
\<close>

type_synonym stdname_t = int
type_synonym var_t = int
type_synonym stdvec_t = "stdname_t vector_t"
type_synonym stdset_t = "stdname_t set_t"
type_synonym varset_t = "var_t set_t"
type_synonym stdvecset_t = "stdvec_t set_t"

text \<open>
  Modelled from the spec: \<open>varmap_t\<close> with \<open>varmap_init_with_size\<close> and
  \<open>varmap_add_replace\<close> (map.h is not among the sources). A varmap is the variable
  assignment \<open>\<sigma>\<close> of the spec, from variables to names of \<open>H\<^sup>+\<close>; \<open>add_replace\<close> binds
  a variable, replacing an earlier binding.
\<close>

type_synonym varmap_t = "var_t \<rightharpoonup> stdname_t"

definition varmap_init_with_size :: "int \<Rightarrow> varmap_t" where
  "varmap_init_with_size n = Map.empty"

definition varmap_add_replace :: "varmap_t \<Rightarrow> var_t \<Rightarrow> stdname_t \<Rightarrow> varmap_t" where
  "varmap_add_replace varmap var n = varmap(var \<mapsto> n)"

text \<open>
  A \<open>univ_clause_t\<close> has the set \<open>vars\<close> of its variables and the function pointer
  \<open>univ_clause\<close>, which returns the clause under a variable assignment, or \<open>NULL\<close>
  (\<open>None\<close>) when the assignment does not satisfy the condition of the clause.
\<close>

record 'c univ_clause_t =
  vars :: varset_t
  univ_clause :: "varmap_t \<Rightarrow> 'c option"

text \<open>
  \<open>generate_varmaps\<close> changes the setup and the varmap through pointers; the model
  returns both. The \<open>for\<close> loop over the names of \<open>ns\<close> is the fold over the indices
  \<open>0, \<dots>, stdset_size(ns) - 1\<close>.
\<close>

function generate_varmaps ::
  "'c set_t \<Rightarrow> varmap_t \<Rightarrow> 'c univ_clause_t \<Rightarrow> stdvecset_t \<Rightarrow> stdset_t \<Rightarrow> int
   \<Rightarrow> error + ('c set_t \<times> varmap_t)" where
  "generate_varmaps setup varmap uc zs ns i =
     (if i < set_size (vars uc) then
        (case set_get (vars uc) i of
           Inl e \<Rightarrow> Inl e
         | Inr var \<Rightarrow>
             fold (\<lambda>j st.
                     case st of
                       Inl e \<Rightarrow> Inl e
                     | Inr (setup', varmap') \<Rightarrow>
                         (case set_get ns j of
                            Inl e \<Rightarrow> Inl e
                          | Inr n \<Rightarrow>
                              generate_varmaps setup' (varmap_add_replace varmap' var n)
                                uc zs ns (i + 1)))
                  [0..set_size ns - 1] (Inr (setup, varmap)))
      else
        (case univ_clause uc varmap of
           None \<Rightarrow> Inr (setup, varmap)
         | Some c \<Rightarrow>
             (case set_add setup c of
                Inl e \<Rightarrow> Inl e
              | Inr (added, setup') \<Rightarrow> Inr (setup', varmap))))"
  by pat_completeness auto
termination
  by (relation "measure (\<lambda>(setup, varmap, uc, zs, ns, i). nat (set_size (vars uc) - i))")
     auto

text \<open>
  The three nested loops at the end of \<open>ground_clauses\<close>, over the clauses of
  \<open>box_clauses\<close>, the action sequences \<open>z\<close> of \<open>zs\<close> and the lengths \<open>k\<close> of the prefixes
  of \<open>z\<close>. Their body is the declaration \<open>stdvec_t z_prefix = stdvec_sub(z, 0, k)\<close>
  alone: nothing is added to \<open>setup\<close>, which the loops hand through.
\<close>

definition ground_clauses_prefixes :: "'c set_t \<Rightarrow> stdvec_t \<Rightarrow> error + 'c set_t" where
  "ground_clauses_prefixes setup z =
     fold (\<lambda>k st.
             case st of
               Inl e \<Rightarrow> Inl e
             | Inr setup' \<Rightarrow> (let z_prefix = vector_sub z 0 k in Inr setup'))
          [0..vector_size z - 1] (Inr setup)"

definition ground_clauses_zs :: "'c set_t \<Rightarrow> stdvecset_t \<Rightarrow> error + 'c set_t" where
  "ground_clauses_zs setup zs =
     fold (\<lambda>j st.
             case st of
               Inl e \<Rightarrow> Inl e
             | Inr setup' \<Rightarrow>
                 (case set_get zs j of
                    Inl e \<Rightarrow> Inl e
                  | Inr z \<Rightarrow> ground_clauses_prefixes setup' z))
          [0..set_size zs - 1] (Inr setup)"

definition ground_clauses ::
  "('c \<Rightarrow> 'c \<Rightarrow> int) \<Rightarrow> 'c univ_clause_t list \<Rightarrow> stdvecset_t \<Rightarrow> stdset_t \<Rightarrow> error + 'c set_t" where
  "ground_clauses clause_cmp univ_clauses zs ns =
     (case set_init clause_cmp of
        Inl e \<Rightarrow> Inl e
      | Inr box_clauses0 \<Rightarrow>
          (case fold (\<lambda>uc st.
                        case st of
                          Inl e \<Rightarrow> Inl e
                        | Inr box_clauses' \<Rightarrow>
                            (case generate_varmaps box_clauses'
                                    (varmap_init_with_size (set_size (vars uc))) uc zs ns 0 of
                               Inl e \<Rightarrow> Inl e
                             | Inr (box_clauses'', varmap) \<Rightarrow> Inr box_clauses''))
                     univ_clauses (Inr box_clauses0) of
             Inl e \<Rightarrow> Inl e
           | Inr box_clauses \<Rightarrow>
               (case set_init clause_cmp of
                  Inl e \<Rightarrow> Inl e
                | Inr setup \<Rightarrow>
                    fold (\<lambda>i st.
                            case st of
                              Inl e \<Rightarrow> Inl e
                            | Inr setup' \<Rightarrow> ground_clauses_zs setup' zs)
                         [0..set_size box_clauses - 1] (Inr setup))))"

section \<open>query.c\<close>

text \<open>
  Modelled from the spec: the extended literals of the C sources, \<open>literal_t\<close> with
  \<open>literal_flip\<close> and \<open>literal_prepend_all\<close> (the C header literal.h is not among the
  sources). A literal has an action prefix \<open>lit_z\<close>, a sign, a predicate and arguments;
  flipping toggles the sign, and pushing actions to a literal puts the action sequence
  in front of its action prefix.
\<close>

record literal_t =
  lit_z :: "stdname_t list"
  lit_sign :: bool
  lit_pred :: int
  lit_args :: "stdname_t list"

definition literal_flip :: "literal_t \<Rightarrow> literal_t" where
  "literal_flip l = l\<lparr>lit_sign := \<not> lit_sign l\<rparr>"

definition literal_prepend_all :: "stdname_t list \<Rightarrow> literal_t \<Rightarrow> literal_t" where
  "literal_prepend_all zs l = l\<lparr>lit_z := zs @ lit_z l\<rparr>"

text \<open>
  \<open>struct query\<close> with its \<open>enum query_type\<close>. \<open>OR\<close>, \<open>AND\<close> and \<open>EX\<close> are written
  \<open>OR'\<close>, \<open>AND'\<close> and \<open>EX'\<close>. The body of an existential is a function pointer from
  the name put for the variable to the instance.
\<close>

datatype query =
    EQ stdname_t stdname_t
  | NEQ stdname_t stdname_t
  | LIT literal_t
  | OR' query query
  | AND' query query
  | NEG query
  | EX' "stdname_t \<Rightarrow> query"
  | ACT stdname_t query

function query_ground_quantifier ::
  "bool \<Rightarrow> (stdname_t \<Rightarrow> query) \<Rightarrow> stdset_t \<Rightarrow> int \<Rightarrow> error + query" where
  "query_ground_quantifier existential phi hplus i =
     (if \<not> (0 \<le> i \<and> i \<le> set_size hplus) then Inl AssertionFailed
      else case set_get hplus i of
             Inl e \<Rightarrow> Inl e
           | Inr n \<Rightarrow>
               (let psi1 = phi n
                in if i + 1 = set_size hplus then Inr psi1
                   else case query_ground_quantifier existential phi hplus (i + 1) of
                          Inl e \<Rightarrow> Inl e
                        | Inr psi2 \<Rightarrow>
                            Inr (if existential then OR' psi1 psi2 else AND' psi1 psi2)))"
  by pat_completeness auto
termination
  by (relation "measure (\<lambda>(existential, phi, hplus, i). nat (set_size hplus - i))")
     (auto simp: set_get_def set_size_def vector_get_def vector_size_def split: if_splits)

text \<open>
  The \<open>EX\<close> case of \<open>query_ennf_h\<close> grounds the quantifier with
  \<open>query_ground_quantifier(!flip, phi, hplus, 0)\<close> and calls \<open>query_ennf_h\<close> on the
  formula it built. That formula is no part of the input, so the recursion is not
  along the structure of the query. \<open>query_ennf_quantifier\<close> is the call of
  \<open>query_ennf_h\<close> on the grounded formula: it runs over \<open>hplus\<close> as
  \<open>query_ground_quantifier\<close> did, with the ENNF \<open>r n\<close> of the instance \<open>phi n\<close> in the
  place of the instance, the first operand before the second as in the \<open>OR\<close> and
  \<open>AND\<close> cases. With \<open>flip\<close> the grounding builds \<open>AND\<close> nodes, which \<open>query_ennf_h\<close>
  under \<open>flip\<close> turns into \<open>OR\<close> nodes; without \<open>flip\<close> it builds \<open>OR\<close> nodes, which
  stay: the node is \<open>OR\<close> both times. Lemma \<open>query_ennf_h_EX\<close> below is the equation
  of the source.
\<close>

function query_ennf_quantifier ::
  "(stdname_t \<Rightarrow> error + query) \<Rightarrow> stdset_t \<Rightarrow> int \<Rightarrow> error + query" where
  "query_ennf_quantifier r hplus i =
     (if \<not> (0 \<le> i \<and> i \<le> set_size hplus) then Inl AssertionFailed
      else case set_get hplus i of
             Inl e \<Rightarrow> Inl e
           | Inr n \<Rightarrow>
               if i + 1 = set_size hplus then r n
               else case r n of
                      Inl e \<Rightarrow> Inl e
                    | Inr psi1 \<Rightarrow>
                        (case query_ennf_quantifier r hplus (i + 1) of
                           Inl e \<Rightarrow> Inl e
                         | Inr psi2 \<Rightarrow> Inr (OR' psi1 psi2)))"
  by pat_completeness auto
termination
  by (relation "measure (\<lambda>(r, hplus, i). nat (set_size hplus - i))")
     (auto simp: set_get_def set_size_def vector_get_def vector_size_def split: if_splits)

text \<open>
  \<open>query_ennf_h(phi, hplus, flip, z)\<close>; \<open>z\<close> is the sequence of the actions met so far.
  In the \<open>NEQ\<close> case under \<open>flip\<close> the source writes \<open>.type = NEQ, .u.neq = phi->u.eq\<close>;
  \<open>u.eq\<close> and \<open>u.neq\<close> are the same two names.
\<close>

primrec query_ennf_h ::
  "query \<Rightarrow> stdset_t \<Rightarrow> bool \<Rightarrow> stdname_t list \<Rightarrow> error + query" where
  "query_ennf_h (EQ n1 n2) =
     (\<lambda>hplus flip zz. Inr (if flip then NEQ n1 n2 else EQ n1 n2))"
| "query_ennf_h (NEQ n1 n2) =
     (\<lambda>hplus flip zz. Inr (if flip then NEQ n1 n2 else NEQ n1 n2))"
| "query_ennf_h (LIT l) =
     (\<lambda>hplus flip zz.
        (let l1 = (if flip then literal_flip l else l);
             l2 = (if length zz > 0 then literal_prepend_all zz l1 else l1)
         in Inr (LIT l2)))"
| "query_ennf_h (OR' phi1 phi2) =
     (\<lambda>hplus flip zz.
        case query_ennf_h phi1 hplus flip zz of
          Inl e \<Rightarrow> Inl e
        | Inr psi1 \<Rightarrow>
            (case query_ennf_h phi2 hplus flip zz of
               Inl e \<Rightarrow> Inl e
             | Inr psi2 \<Rightarrow> Inr (if flip then AND' psi1 psi2 else OR' psi1 psi2)))"
| "query_ennf_h (AND' phi1 phi2) =
     (\<lambda>hplus flip zz.
        case query_ennf_h phi1 hplus flip zz of
          Inl e \<Rightarrow> Inl e
        | Inr psi1 \<Rightarrow>
            (case query_ennf_h phi2 hplus flip zz of
               Inl e \<Rightarrow> Inl e
             | Inr psi2 \<Rightarrow> Inr (if flip then OR' psi1 psi2 else AND' psi1 psi2)))"
| "query_ennf_h (NEG phi) = (\<lambda>hplus flip zz. query_ennf_h phi hplus (\<not> flip) zz)"
| "query_ennf_h (EX' phi) =
     (\<lambda>hplus flip zz.
        case query_ground_quantifier (\<not> flip) phi hplus 0 of
          Inl e \<Rightarrow> Inl e
        | Inr psi \<Rightarrow>
            query_ennf_quantifier (\<lambda>n. query_ennf_h (phi n) hplus flip zz) hplus 0)"
| "query_ennf_h (ACT n phi) = (\<lambda>hplus flip zz. query_ennf_h phi hplus flip (zz @ [n]))"

definition query_ennf :: "query \<Rightarrow> stdset_t \<Rightarrow> error + query" where
  "query_ennf phi hplus = query_ennf_h phi hplus False []"

text \<open>
  \<open>query_simplify(phi, truth_value)\<close> returns a pointer, \<open>NULL\<close> (\<open>None\<close>) when the
  formula is a constant, whose value it has written to \<open>*truth_value\<close>; the model takes
  the value of \<open>*truth_value\<close> before the call and returns it after the call.

  The \<open>OR\<close> and \<open>AND\<close> cases test \<open>truth_value\<close>, the pointer, not \<open>*truth_value\<close>.
  \<open>query_test\<close> passes the address of a local variable, and the \<open>EQ\<close> and \<open>NEQ\<close> cases
  write through the pointer: it is not \<open>NULL\<close>, and its C truth value is
  \<open>truth_value_ptr\<close>.
\<close>

definition truth_value_ptr :: bool where
  "truth_value_ptr = True"

text \<open>
  \<open>query_free\<close> on an \<open>OR\<close> or \<open>AND\<close> node whose two children are the given pointers:
  it calls itself on \<open>phi1\<close>, then on \<open>phi2\<close>, and each call starts by reading
  \<open>phi->type\<close>.
\<close>

definition query_free_binary :: "query option \<Rightarrow> query option \<Rightarrow> error + unit" where
  "query_free_binary phi1 phi2 =
     (case phi1 of
        None \<Rightarrow> Inl NullPointerDereference
      | Some psi1 \<Rightarrow>
          (case phi2 of
             None \<Rightarrow> Inl NullPointerDereference
           | Some psi2 \<Rightarrow> Inr ()))"

fun query_simplify :: "query \<Rightarrow> bool \<Rightarrow> error + (query option \<times> bool)" where
  "query_simplify (EQ n1 n2) tv = Inr (None, n1 = n2)"
| "query_simplify (NEQ n1 n2) tv = Inr (None, n1 \<noteq> n2)"
| "query_simplify (LIT l) tv = Inr (Some (LIT l), tv)"
| "query_simplify (OR' phi1 phi2) tv =
     (case query_simplify phi1 tv of
        Inl e \<Rightarrow> Inl e
      | Inr (r1, tv1) \<Rightarrow>
          if r1 = None \<and> truth_value_ptr then
            (case query_free_binary r1 (Some phi2) of
               Inl e \<Rightarrow> Inl e
             | Inr u \<Rightarrow> Inr (None, tv1))
          else
            (case query_simplify phi2 tv1 of
               Inl e \<Rightarrow> Inl e
             | Inr (r2, tv2) \<Rightarrow>
                 if r2 = None \<and> truth_value_ptr then
                   (case query_free_binary r1 r2 of
                      Inl e \<Rightarrow> Inl e
                    | Inr u \<Rightarrow> Inr (None, tv2))
                 else
                   (case r1 of
                      None \<Rightarrow> Inr (r2, tv2)
                    | Some psi1 \<Rightarrow>
                        (case r2 of
                           None \<Rightarrow> Inr (Some psi1, tv2)
                         | Some psi2 \<Rightarrow> Inr (Some (OR' psi1 psi2), tv2)))))"
| "query_simplify (AND' phi1 phi2) tv =
     (case query_simplify phi1 tv of
        Inl e \<Rightarrow> Inl e
      | Inr (r1, tv1) \<Rightarrow>
          if r1 = None \<and> \<not> truth_value_ptr then
            (case query_free_binary r1 (Some phi2) of
               Inl e \<Rightarrow> Inl e
             | Inr u \<Rightarrow> Inr (None, tv1))
          else
            (case query_simplify phi2 tv1 of
               Inl e \<Rightarrow> Inl e
             | Inr (r2, tv2) \<Rightarrow>
                 if r2 = None \<and> \<not> truth_value_ptr then
                   (case query_free_binary r1 r2 of
                      Inl e \<Rightarrow> Inl e
                    | Inr u \<Rightarrow> Inr (None, tv2))
                 else
                   (case r1 of
                      None \<Rightarrow> Inr (r2, tv2)
                    | Some psi1 \<Rightarrow>
                        (case r2 of
                           None \<Rightarrow> Inr (Some psi1, tv2)
                         | Some psi2 \<Rightarrow> Inr (Some (AND' psi1 psi2), tv2)))))"
| "query_simplify (NEG phi) tv =
     (case query_simplify phi tv of
        Inl e \<Rightarrow> Inl e
      | Inr (r, tv1) \<Rightarrow>
          (case r of
             None \<Rightarrow> Inr (None, tv1)
           | Some psi \<Rightarrow> Inr (Some (NEG psi), tv1)))"
| "query_simplify (EX' phi) tv = Inl AssertionFailed"
| "query_simplify (ACT n phi) tv = Inl AssertionFailed"

section \<open>limbo/term.h\<close>

type_synonym u8 = "8 word"
type_synonym u32 = "32 word"
type_synonym u64 = "64 word"

subsection \<open>Symbol::Sort and Symbol\<close>

text \<open>A \<open>Sort\<close> is its \<open>id_\<close>, of type \<open>u8\<close>.\<close>

type_synonym Sort = u8

definition Sort_Nonrigid :: "u8 \<Rightarrow> Sort" where
  "Sort_Nonrigid i = 2 * i"

definition Sort_Rigid :: "u8 \<Rightarrow> Sort" where
  "Sort_Rigid i = 2 * i + 1"

definition Sort_rigid :: "Sort \<Rightarrow> bool" where
  "Sort_rigid s = (unat s mod 2 = 1)"

text \<open>
  The fields \<open>id_\<close>, \<open>sort_\<close> and \<open>arity_\<close> of a \<open>Symbol\<close> are \<open>sym_id\<close>, \<open>sym_sort\<close>
  and \<open>sym_arity\<close>. The two low bits of \<open>id_\<close> tell names (0), variables (1) and
  functions (2) apart. \<open>Symbol::operator==\<close> compares \<open>id_\<close> and asserts that symbols
  with one \<open>id_\<close> have one sort and one arity.
\<close>

record Symbol =
  sym_id :: u32
  sym_sort :: Sort
  sym_arity :: u8

definition Symbol_default :: Symbol where
  "Symbol_default = \<lparr>sym_id = 0, sym_sort = 0, sym_arity = 0\<rparr>"

definition Symbol_name :: "Symbol \<Rightarrow> bool" where
  "Symbol_name s = (sym_id s AND 3 = 0)"

definition Symbol_variable :: "Symbol \<Rightarrow> bool" where
  "Symbol_variable s = (sym_id s AND 3 = 1)"

definition Symbol_function :: "Symbol \<Rightarrow> bool" where
  "Symbol_function s = (sym_id s AND 3 = 2)"

definition Symbol_null :: "Symbol \<Rightarrow> bool" where
  "Symbol_null s = (sym_id s = 0)"

definition Symbol_id :: "Symbol \<Rightarrow> u32" where
  "Symbol_id s = drop_bit 2 (sym_id s)"

definition Symbol_eq :: "Symbol \<Rightarrow> Symbol \<Rightarrow> error + bool" where
  "Symbol_eq s t =
     (if \<not> (sym_id s \<noteq> sym_id t \<or> (sym_sort s = sym_sort t \<and> sym_arity s = sym_arity t))
      then Inl AssertionFailed
      else Inr (sym_id s = sym_id t))"

text \<open>
  The constructor \<open>Symbol(id, sort, arity)\<close> asserts
  \<open>!function() || !variable() || arity == 0\<close>; the other two assertions compare
  unsigned numbers with 0.
\<close>

definition Symbol_ctor :: "u32 \<Rightarrow> Sort \<Rightarrow> u8 \<Rightarrow> error + Symbol" where
  "Symbol_ctor i so ar =
     (let s = \<lparr>sym_id = i, sym_sort = so, sym_arity = ar\<rparr>
      in if \<not> (\<not> Symbol_function s \<or> \<not> Symbol_variable s \<or> ar = 0) then Inl AssertionFailed
         else Inr s)"

definition CreateName :: "u32 \<Rightarrow> Sort \<Rightarrow> error + Symbol" where
  "CreateName i so =
     (if \<not> i > 0 then Inl AssertionFailed else Symbol_ctor (push_bit 2 i OR 0) so 0)"

definition CreateVariable :: "u32 \<Rightarrow> Sort \<Rightarrow> error + Symbol" where
  "CreateVariable i so =
     (if \<not> i > 0 then Inl AssertionFailed else Symbol_ctor (push_bit 2 i OR 1) so 0)"

definition CreateFunction :: "u32 \<Rightarrow> Sort \<Rightarrow> u8 \<Rightarrow> error + Symbol" where
  "CreateFunction i so ar =
     (if \<not> i > 0 then Inl AssertionFailed
      else if \<not> (ar > 0 \<or> \<not> Sort_rigid so) then Inl AssertionFailed
      else Symbol_ctor (push_bit 2 i OR 2) so ar)"

subsection \<open>Term and Term::Factory\<close>

text \<open>
  A \<open>Term\<close> is its \<open>id_\<close>, of type \<open>u32\<close>. \<open>Term::Data\<close> is the symbol with the
  arguments. The factory is a singleton, which the observers of \<open>Term\<close> reach through
  \<open>Factory::Instance()\<close>; in the model they take the factory as their first argument.

  \<open>memory_\<close> maps every sort to a hash table from \<open>Data\<close> to ids. The table compares
  its keys with \<open>Data::operator==\<close>, that is the \<open>id_\<close> of the symbol and the arguments:
  the model keys the table of a sort by this pair. The two heaps are vectors of \<open>Data\<close>.
\<close>

type_synonym Term = u32

record Data =
  symbol :: Symbol
  args :: "Term list"

record Factory =
  memory :: "Sort \<Rightarrow> (u32 \<times> Term list) \<rightharpoonup> u32"
  name_heap :: "Data list"
  variable_and_function_heap :: "Data list"

definition Factory_init :: Factory where
  "Factory_init = \<lparr>memory = (\<lambda>so. Map.empty), name_heap = [],
                    variable_and_function_heap = []\<rparr>"

definition Term_null :: "Term \<Rightarrow> bool" where
  "Term_null t = (t = 0)"

definition Term_name :: "Term \<Rightarrow> bool" where
  "Term_name t = (t AND 1 = 1)"

text \<open>
  \<open>Factory::get(id)\<close> reads \<open>name_heap_[(id >> 1) - 1]\<close> or
  \<open>variable_and_function_heap_[(id >> 1) - 1]\<close>; the index is computed in \<open>u32\<close>.
\<close>

definition Factory_get :: "Factory \<Rightarrow> u32 \<Rightarrow> error + Data" where
  "Factory_get tf i =
     (let heap = (if i AND 1 = 1 then name_heap tf else variable_and_function_heap tf);
          k = unat (drop_bit 1 i - 1)
      in if k < length heap then Inr (heap ! k) else Inl OutOfBounds)"

definition Term_symbol :: "Factory \<Rightarrow> Term \<Rightarrow> error + Symbol" where
  "Term_symbol tf t = (case Factory_get tf t of Inl e \<Rightarrow> Inl e | Inr d \<Rightarrow> Inr (symbol d))"

definition Term_args :: "Factory \<Rightarrow> Term \<Rightarrow> error + Term list" where
  "Term_args tf t = (case Factory_get tf t of Inl e \<Rightarrow> Inl e | Inr d \<Rightarrow> Inr (args d))"

definition Term_sort :: "Factory \<Rightarrow> Term \<Rightarrow> error + Sort" where
  "Term_sort tf t = (case Term_symbol tf t of Inl e \<Rightarrow> Inl e | Inr s \<Rightarrow> Inr (sym_sort s))"

definition Term_variable :: "Factory \<Rightarrow> Term \<Rightarrow> error + bool" where
  "Term_variable tf t =
     (case Term_symbol tf t of Inl e \<Rightarrow> Inl e | Inr s \<Rightarrow> Inr (Symbol_variable s))"

definition Term_function :: "Factory \<Rightarrow> Term \<Rightarrow> error + bool" where
  "Term_function tf t =
     (case Term_symbol tf t of Inl e \<Rightarrow> Inl e | Inr s \<Rightarrow> Inr (Symbol_function s))"

text \<open>
  \<open>all_args<Prop>\<close> and \<open>no_arg<Prop>\<close> run over the arguments and return at the first
  argument that decides.
\<close>

fun all_of :: "(Term \<Rightarrow> error + bool) \<Rightarrow> Term list \<Rightarrow> error + bool" where
  "all_of P [] = Inr True"
| "all_of P (t # ts) =
     (case P t of
        Inl e \<Rightarrow> Inl e
      | Inr b \<Rightarrow> if \<not> b then Inr False else all_of P ts)"

fun none_of :: "(Term \<Rightarrow> error + bool) \<Rightarrow> Term list \<Rightarrow> error + bool" where
  "none_of P [] = Inr True"
| "none_of P (t # ts) =
     (case P t of
        Inl e \<Rightarrow> Inl e
      | Inr b \<Rightarrow> if b then Inr False else none_of P ts)"

definition all_args :: "Factory \<Rightarrow> (Term \<Rightarrow> error + bool) \<Rightarrow> Term \<Rightarrow> error + bool" where
  "all_args tf P t = (case Term_args tf t of Inl e \<Rightarrow> Inl e | Inr ts \<Rightarrow> all_of P ts)"

definition no_arg :: "Factory \<Rightarrow> (Term \<Rightarrow> error + bool) \<Rightarrow> Term \<Rightarrow> error + bool" where
  "no_arg tf P t = (case Term_args tf t of Inl e \<Rightarrow> Inl e | Inr ts \<Rightarrow> none_of P ts)"

definition Term_primitive :: "Factory \<Rightarrow> Term \<Rightarrow> error + bool" where
  "Term_primitive tf t =
     (case Term_sort tf t of
        Inl e \<Rightarrow> Inl e
      | Inr so \<Rightarrow>
          if Sort_rigid so then Inr False
          else (case Term_function tf t of
                  Inl e \<Rightarrow> Inl e
                | Inr f \<Rightarrow>
                    if \<not> f then Inr False
                    else all_args tf (\<lambda>u. Inr (Term_name u)) t))"

definition Term_quasi_name :: "Factory \<Rightarrow> Term \<Rightarrow> error + bool" where
  "Term_quasi_name tf t =
     (case Term_function tf t of
        Inl e \<Rightarrow> Inl e
      | Inr f \<Rightarrow>
          if \<not> f then Inr True
          else (case Term_sort tf t of
                  Inl e \<Rightarrow> Inl e
                | Inr so \<Rightarrow>
                    if \<not> Sort_rigid so then Inr False
                    else no_arg tf (Term_function tf) t))"

definition Term_quasi_primitive :: "Factory \<Rightarrow> Term \<Rightarrow> error + bool" where
  "Term_quasi_primitive tf t =
     (case Term_sort tf t of
        Inl e \<Rightarrow> Inl e
      | Inr so \<Rightarrow>
          if Sort_rigid so then Inr False
          else (case Term_function tf t of
                  Inl e \<Rightarrow> Inl e
                | Inr f \<Rightarrow>
                    if \<not> f then Inr False
                    else all_args tf (Term_quasi_name tf) t))"

text \<open>
  \<open>CreateTerm(symbol, args)\<close>. \<open>CreateTerm_name\<close> is the expression that initialises
  \<open>const bool name\<close>; the lambda of its \<open>std::all_of\<close> is
  \<open>t.name() && !t.function()\<close>, and \<open>t.function()\<close> reads the factory as it is before
  the new term is stored.

  \<open>s->find(d)\<close> compares \<open>d\<close> with the keys of the table that its hash leads to, by
  \<open>Data::operator==\<close> and so by \<open>Symbol::operator==\<close>, whose assertion fails on two
  symbols with one \<open>id_\<close>, one sort (the table is the table of the sort) and two
  arities. Which keys the hash leads to depends on \<open>jenkins_hash\<close> and on the buckets of
  \<open>std::unordered_map\<close>, neither of which is among the sources: the lookup of the model
  is the lookup by \<open>id_\<close> and arguments, without this assertion. It is the lookup of the
  source in every factory whose symbols with one \<open>id_\<close> and one sort have one arity.
\<close>

definition CreateTerm_name :: "Factory \<Rightarrow> Symbol \<Rightarrow> Term list \<Rightarrow> error + bool" where
  "CreateTerm_name tf smb ts =
     (if Symbol_name smb then Inr True
      else if \<not> Sort_rigid (sym_sort smb) then Inr False
      else if \<not> Symbol_function smb then Inr False
      else all_of (\<lambda>t. if \<not> Term_name t then Inr False
                        else (case Term_function tf t of
                                Inl e \<Rightarrow> Inl e
                              | Inr f \<Rightarrow> Inr (\<not> f))) ts)"

definition CreateTerm :: "Factory \<Rightarrow> Symbol \<Rightarrow> Term list \<Rightarrow> error + (Term \<times> Factory)" where
  "CreateTerm tf smb ts =
     (if \<not> (\<not> Symbol_null smb \<and> list_all (\<lambda>t. \<not> Term_null t) ts) then Inl AssertionFailed
      else if \<not> (sym_arity smb = (of_nat (length ts) :: u8)) then Inl AssertionFailed
      else
        (let d = \<lparr>symbol = smb, args = ts\<rparr>;
             s = memory tf (sym_sort smb)
         in case s (sym_id smb, ts) of
              None \<Rightarrow>
                (case CreateTerm_name tf smb ts of
                   Inl e \<Rightarrow> Inl e
                 | Inr name \<Rightarrow>
                     (let heap = (if name then name_heap tf
                                  else variable_and_function_heap tf) @ [d];
                          i = push_bit 1 (of_nat (length heap) :: u32) OR of_bool name;
                          mem = (memory tf)(sym_sort smb := s((sym_id smb, ts) \<mapsto> i))
                      in Inr (i, if name then tf\<lparr>memory := mem, name_heap := heap\<rparr>
                                 else tf\<lparr>memory := mem,
                                         variable_and_function_heap := heap\<rparr>)))
            | Some i \<Rightarrow> Inr (i, tf)))"

section \<open>limbo/literal.h\<close>

text \<open>
  A \<open>Literal\<close> is its \<open>data_\<close>, of type \<open>u64\<close>: the left-hand side in the low 32 bits,
  the right-hand side in bits 32 to 62 and the sign in bit 63.
\<close>

type_synonym Literal = u64

definition lhs :: "Literal \<Rightarrow> Term" where
  "lhs a = ucast a"

definition pos :: "Literal \<Rightarrow> bool" where
  "pos a = (drop_bit 63 a = 1)"

definition rhs :: "Literal \<Rightarrow> Term" where
  "rhs a = (ucast (drop_bit 32 a) :: u32) AND NOT (push_bit 31 1)"

definition Literal_null :: "Literal \<Rightarrow> bool" where
  "Literal_null a = (a = 0)"

definition Literal_eq :: "Literal \<Rightarrow> Literal \<Rightarrow> bool" where
  "Literal_eq a b = (pos a = pos b \<and> lhs a = lhs b \<and> rhs a = rhs b)"

text \<open>
  The constructor \<open>Literal(pos, lhs, rhs)\<close> orders the two sides, packs them and asserts
  that the packed literal gives back the sign and the sides.
\<close>

definition Literal_ctor :: "Factory \<Rightarrow> bool \<Rightarrow> Term \<Rightarrow> Term \<Rightarrow> error + Literal" where
  "Literal_ctor tf p l r =
     (if Term_null l then Inl AssertionFailed
      else if Term_null r then Inl AssertionFailed
      else
        (let (l1, r1) = (if \<not> l < r then (r, l) else (l, r))
         in case (case Term_function tf l1 of
                    Inl e \<Rightarrow> Inl e
                  | Inr fl \<Rightarrow>
                      (case (if \<not> fl then Term_function tf r1 else Inr False) of
                         Inl e \<Rightarrow> Inl e
                       | Inr b \<Rightarrow> if b then Inr True else Term_quasi_primitive tf r1)) of
              Inl e \<Rightarrow> Inl e
            | Inr swap \<Rightarrow>
                (let (l2, r2) = (if swap then (r1, l1) else (l1, r1))
                 in case Term_function tf r2 of
                      Inl e \<Rightarrow> Inl e
                    | Inr fr \<Rightarrow>
                        (case (if \<not> fr then Inr True else Term_function tf l2) of
                           Inl e \<Rightarrow> Inl e
                         | Inr ok \<Rightarrow>
                             if \<not> ok then Inl AssertionFailed
                             else
                               (let a = (ucast l2 :: u64)
                                          OR push_bit 63 (of_bool p)
                                          OR push_bit 32 (ucast r2)
                                in if lhs a = l2 \<and> rhs a = r2 \<and> pos a = p then Inr a
                                   else Inl AssertionFailed)))))"

definition Eq :: "Factory \<Rightarrow> Term \<Rightarrow> Term \<Rightarrow> error + Literal" where
  "Eq tf l r = Literal_ctor tf True l r"

definition Neq :: "Factory \<Rightarrow> Term \<Rightarrow> Term \<Rightarrow> error + Literal" where
  "Neq tf l r = Literal_ctor tf False l r"

definition flip :: "Factory \<Rightarrow> Literal \<Rightarrow> error + Literal" where
  "flip tf a = Literal_ctor tf (\<not> pos a) (lhs a) (rhs a)"

definition dual :: "Factory \<Rightarrow> Literal \<Rightarrow> error + Literal" where
  "dual tf a = Literal_ctor tf (pos a) (rhs a) (lhs a)"

definition primitive :: "Factory \<Rightarrow> Literal \<Rightarrow> error + bool" where
  "primitive tf a =
     (case Term_primitive tf (lhs a) of
        Inl e \<Rightarrow> Inl e
      | Inr b \<Rightarrow> if \<not> b then Inr False else Inr (Term_name (rhs a)))"

text \<open>
  The relations between two literals. \<open>Valid\<close> and \<open>Complementary\<close> assert that both
  literals are primitive and return the value of an expression over the signs and sides,
  \<open>Valid_expr\<close> and \<open>Complementary_expr\<close>. \<open>ProperlySubsumes\<close> and \<open>Subsumes\<close> assert
  nothing.
\<close>

definition Valid_expr :: "Literal \<Rightarrow> Literal \<Rightarrow> bool" where
  "Valid_expr a b =
     ((lhs a = lhs b \<and> pos a \<noteq> pos b \<and> rhs a = rhs b) \<or>
      (lhs a = lhs b \<and> \<not> pos a \<and> \<not> pos b \<and> Term_name (rhs a) \<and> Term_name (rhs b)
         \<and> rhs a \<noteq> rhs b))"

definition Complementary_expr :: "Literal \<Rightarrow> Literal \<Rightarrow> bool" where
  "Complementary_expr a b =
     ((lhs a = lhs b \<and> pos a \<noteq> pos b \<and> rhs a = rhs b) \<or>
      (lhs a = lhs b \<and> pos a \<and> pos b \<and> Term_name (rhs a) \<and> Term_name (rhs b)
         \<and> rhs a \<noteq> rhs b))"

definition Valid :: "Factory \<Rightarrow> Literal \<Rightarrow> Literal \<Rightarrow> error + bool" where
  "Valid tf a b =
     (case primitive tf a of
        Inl e \<Rightarrow> Inl e
      | Inr pa \<Rightarrow>
          if \<not> pa then Inl AssertionFailed
          else (case primitive tf b of
                  Inl e \<Rightarrow> Inl e
                | Inr pb \<Rightarrow>
                    if \<not> pb then Inl AssertionFailed else Inr (Valid_expr a b)))"

definition Complementary :: "Factory \<Rightarrow> Literal \<Rightarrow> Literal \<Rightarrow> error + bool" where
  "Complementary tf a b =
     (case primitive tf a of
        Inl e \<Rightarrow> Inl e
      | Inr pa \<Rightarrow>
          if \<not> pa then Inl AssertionFailed
          else (case primitive tf b of
                  Inl e \<Rightarrow> Inl e
                | Inr pb \<Rightarrow>
                    if \<not> pb then Inl AssertionFailed else Inr (Complementary_expr a b)))"

definition ProperlySubsumes :: "Literal \<Rightarrow> Literal \<Rightarrow> bool" where
  "ProperlySubsumes a b =
     (lhs a = lhs b \<and> pos a \<and> \<not> pos b \<and> Term_name (rhs a) \<and> Term_name (rhs b)
        \<and> rhs a \<noteq> rhs b)"

definition Subsumes :: "Literal \<Rightarrow> Literal \<Rightarrow> bool" where
  "Subsumes a b = (Literal_eq a b \<or> ProperlySubsumes a b)"

section \<open>limbo/clause.h\<close>

text \<open>
  clause.h is written over the class \<open>Lit\<close> of limbo/lit.h, which is not among the
  sources. It uses \<open>Lit()\<close>, \<open>==\<close>, \<open>null\<close>, \<open>Lit::Valid\<close>, \<open>Subsumes\<close> and
  \<open>ProperlySubsumes\<close>, the interface that limbo/literal.h gives \<open>Literal\<close>, and the
  model takes \<open>Literal\<close> for \<open>Lit\<close>: \<open>Lit()\<close> is the literal with \<open>data_ = 0\<close>, and
  \<open>Lit::Valid\<close> is the expression \<open>Valid_expr\<close>, since a clause may hold the null
  literal, which is not primitive.

  A \<open>Clause\<close> is the header \<open>h_\<close> with the literals \<open>as_\<close> behind it; of the header
  the model keeps the size (\<open>h_size\<close>), and \<open>as'\<close> are the cells of \<open>as_\<close>. The
  literals of the clause are the first \<open>h_size\<close> cells.
\<close>

definition Lit_null :: Literal where
  "Lit_null = 0"

record Clause =
  h_size :: nat
  as' :: "Literal list"

definition Clause_lits :: "Clause \<Rightarrow> Literal list" where
  "Clause_lits c = take (h_size c) (as' c)"

text \<open>
  \<open>Normalize(size, as)\<close> works in place: \<open>i2\<close> reads, \<open>i1\<close> writes. The first \<open>for\<close>
  loop compares \<open>as[i2]\<close> with the literals kept so far, the second with the literals
  still to come. A loop ends by \<open>return -1\<close> (\<open>Scan_valid\<close>), by \<open>goto next\<close> after
  \<open>++i2\<close> (\<open>Scan_next\<close>), or at its bound (\<open>Scan_done\<close>).
\<close>

datatype scan = Scan_valid | Scan_next | Scan_done

function Normalize_first :: "bool \<Rightarrow> Literal list \<Rightarrow> nat \<Rightarrow> nat \<Rightarrow> nat \<Rightarrow> scan" where
  "Normalize_first guarantee_invalid as i1 i2 j =
     (if j < i1 then
        (if \<not> guarantee_invalid \<and> Valid_expr (as ! i2) (as ! j) then Scan_valid
         else if Subsumes (as ! i2) (as ! j) then Scan_next
         else Normalize_first guarantee_invalid as i1 i2 (j + 1))
      else Scan_done)"
  by pat_completeness auto
termination
  by (relation "measure (\<lambda>(g, as, i1, i2, j). i1 - j)") auto

function Normalize_second :: "Literal list \<Rightarrow> nat \<Rightarrow> nat \<Rightarrow> nat \<Rightarrow> scan" where
  "Normalize_second as n i2 j =
     (if j < n then
        (if ProperlySubsumes (as ! i2) (as ! j) then Scan_next
         else Normalize_second as n i2 (j + 1))
      else Scan_done)"
  by pat_completeness auto
termination
  by (relation "measure (\<lambda>(as, n, i2, j). n - j)") auto

function Normalize_loop ::
  "bool \<Rightarrow> nat \<Rightarrow> Literal list \<Rightarrow> nat \<Rightarrow> nat \<Rightarrow> error + (int \<times> Literal list)" where
  "Normalize_loop guarantee_invalid n as i1 i2 =
     (if i2 < n then
        (if \<not> i1 \<le> i2 then Inl AssertionFailed
         else case Normalize_first guarantee_invalid as i1 i2 0 of
                Scan_valid \<Rightarrow> Inr (- 1, as[0 := Lit_null])
              | Scan_next \<Rightarrow> Normalize_loop guarantee_invalid n as i1 (i2 + 1)
              | Scan_done \<Rightarrow>
                  (if Normalize_second as n i2 (i2 + 1) = Scan_next
                   then Normalize_loop guarantee_invalid n as i1 (i2 + 1)
                   else Normalize_loop guarantee_invalid n (as[i1 := as ! i2])
                          (i1 + 1) (i2 + 1)))
      else Inr (int i1, as))"
  by pat_completeness auto
termination
  by (relation "measure (\<lambda>(g, n, as, i1, i2). n - i2)") auto

text \<open>
  \<open>Normalize\<close> reads the cells \<open>as[0]\<close> to \<open>as[size - 1]\<close>; an array with fewer cells
  is read out of bounds.
\<close>

definition Normalize :: "bool \<Rightarrow> nat \<Rightarrow> Literal list \<Rightarrow> error + (int \<times> Literal list)" where
  "Normalize guarantee_invalid n as =
     (if length as < n then Inl OutOfBounds
      else Normalize_loop guarantee_invalid n as 0 0)"

text \<open>
  \<open>Normalized()\<close>, which the constructors assert: no two literals at different
  positions are jointly valid, and none subsumes the other.
\<close>

definition Normalized :: "Clause \<Rightarrow> bool" where
  "Normalized c =
     list_all (\<lambda>i. list_all (\<lambda>j. i = j \<or>
                   (\<not> Valid_expr (as' c ! i) (as' c ! j) \<and> \<not> Subsumes (as' c ! i) (as' c ! j)))
                 [0..<h_size c])
              [0..<h_size c]"

text \<open>
  The constructor \<open>Clause(size, first, guaranteed_normalized)\<close> copies \<open>size\<close> literals
  from \<open>first\<close> and normalizes them unless told otherwise.
\<close>

definition Clause_ctor :: "nat \<Rightarrow> Literal list \<Rightarrow> bool \<Rightarrow> error + Clause" where
  "Clause_ctor n first guaranteed_normalized =
     (if length first < n then Inl OutOfBounds
      else
        (let c0 = \<lparr>h_size = n, as' = take n first\<rparr>
         in case (if \<not> guaranteed_normalized then
                    (case Normalize False (h_size c0) (as' c0) of
                       Inl e \<Rightarrow> Inl e
                     | Inr (r, as1) \<Rightarrow>
                         Inr \<lparr>h_size = (if r \<ge> 0 then nat r else 1), as' = as1\<rparr>)
                  else Inr c0) of
              Inl e \<Rightarrow> Inl e
            | Inr c \<Rightarrow> if Normalized c then Inr c else Inl AssertionFailed))"

definition Clause_size :: "Clause \<Rightarrow> nat" where
  "Clause_size c = h_size c"

definition Clause_unit :: "Clause \<Rightarrow> bool" where
  "Clause_unit c = (h_size c = 1)"

definition Clause_valid :: "Clause \<Rightarrow> bool" where
  "Clause_valid c = (Clause_unit c \<and> Literal_null (as' c ! 0))"

text \<open>
  \<open>Clause::operator==\<close>. The inner loop over the literals \<open>b\<close> of \<open>c\<close> leaves through
  \<open>goto next\<close> when \<open>a == b\<close>; \<open>Clause_eq_inner\<close> says whether it did. The label
  \<open>next\<close> stands right behind the inner loop, so the outer loop goes on with the next
  \<open>a\<close> in both cases, and \<open>return true\<close> follows it.
\<close>

fun Clause_eq_inner :: "Literal \<Rightarrow> Literal list \<Rightarrow> bool" where
  "Clause_eq_inner a [] = False"
| "Clause_eq_inner a (b # bs) = (if Literal_eq a b then True else Clause_eq_inner a bs)"

fun Clause_eq_outer :: "Literal list \<Rightarrow> Literal list \<Rightarrow> bool" where
  "Clause_eq_outer [] cs = True"
| "Clause_eq_outer (a # as) cs =
     (if Clause_eq_inner a cs then Clause_eq_outer as cs else Clause_eq_outer as cs)"

definition Clause_eq :: "Clause \<Rightarrow> Clause \<Rightarrow> bool" where
  "Clause_eq this c =
     (if Clause_size this \<noteq> Clause_size c then False
      else Clause_eq_outer (Clause_lits this) (Clause_lits c))"

text \<open>
  \<open>Clause::Subsumes\<close> has the same two loops, with \<open>return false\<close> between the inner
  loop and the label.
\<close>

fun Clause_Subsumes_inner :: "Literal \<Rightarrow> Literal list \<Rightarrow> bool" where
  "Clause_Subsumes_inner a [] = False"
| "Clause_Subsumes_inner a (b # bs) =
     (if Subsumes a b then True else Clause_Subsumes_inner a bs)"

fun Clause_Subsumes_outer :: "Literal list \<Rightarrow> Literal list \<Rightarrow> bool" where
  "Clause_Subsumes_outer [] cs = True"
| "Clause_Subsumes_outer (a # as) cs =
     (if Clause_Subsumes_inner a cs then Clause_Subsumes_outer as cs else False)"

definition Clause_Subsumes :: "Clause \<Rightarrow> Clause \<Rightarrow> bool" where
  "Clause_Subsumes this c = Clause_Subsumes_outer (Clause_lits this) (Clause_lits c)"

text \<open>
  \<open>Clause::Factory\<close> keeps its clauses in a \<open>MemoryPool\<close> of \<open>unsigned int\<close> chunks and
  hands out the index of the first chunk of a clause as its \<open>cref_t\<close>. The model keeps
  the number of chunks in use (\<open>size_\<close>, here \<open>pool_size\<close>) and the clause that was
  built at each reference. A clause takes \<open>sizeof(Clause) + k * sizeof(Lit)\<close> bytes,
  4 for the header and 8 for every literal.
\<close>

record Clause_Factory =
  pool_size :: u32
  pool :: "u32 \<rightharpoonup> Clause"

definition Clause_Factory_init :: Clause_Factory where
  "Clause_Factory_init = \<lparr>pool_size = 1, pool = Map.empty\<rparr>"

definition bytes_to_chunks :: "u32 \<Rightarrow> u32" where
  "bytes_to_chunks n = (n + 4 - 1) div 4"

definition clause_size :: "u32 \<Rightarrow> u32" where
  "clause_size k = bytes_to_chunks (4 + k * 8)"

definition New :: "Clause_Factory \<Rightarrow> bool \<Rightarrow> nat \<Rightarrow> Literal list
    \<Rightarrow> error + (u32 \<times> Clause_Factory)" where
  "New cf guaranteed_normalized k as =
     (let cr = pool_size cf
      in case Clause_ctor k as guaranteed_normalized of
           Inl e \<Rightarrow> Inl e
         | Inr c \<Rightarrow>
             Inr (cr, \<lparr>pool_size = pool_size cf + clause_size (of_nat k),
                       pool = (pool cf)(cr \<mapsto> c)\<rparr>))"

section \<open>Predicates of the properties\<close>

subsection \<open>Sorted sets\<close>

text \<open>
  The comparators that the sets are used with order their elements totally:
  \<open>cmp x y\<close> is negative iff \<open>cmp y x\<close> is positive, and \<open>\<le> 0\<close> is transitive.
\<close>

definition valid_compar :: "('a \<Rightarrow> 'a \<Rightarrow> int) \<Rightarrow> bool" where
  "valid_compar cmp \<longleftrightarrow>
     (\<forall>x y. (cmp x y < 0) = (cmp y x > 0)) \<and>
     (\<forall>x y z. cmp x y \<le> 0 \<longrightarrow> cmp y z \<le> 0 \<longrightarrow> cmp x z \<le> 0)"








subsection \<open>Example sets\<close>

text \<open>A comparator on integers, and the set that \<open>set_singleton\<close> builds from it and 3.\<close>

definition ex_compar :: "int \<Rightarrow> int \<Rightarrow> int" where
  "ex_compar x y = x - y"

definition ex_set :: "int set_t" where
  "ex_set = \<lparr>vec = \<lparr>array = [3], capacity = 4, size' = 1\<rparr>, compar = ex_compar\<rparr>"

subsection \<open>Normalization of clauses\<close>

text \<open>
  The array of \<open>k\<close> literals holds two literals at different positions that are
  jointly valid.
\<close>

definition jointly_valid_pair :: "nat \<Rightarrow> Literal list \<Rightarrow> bool" where
  "jointly_valid_pair n as \<longleftrightarrow>
     (\<exists>i<n. \<exists>j<n. i \<noteq> j \<and> Valid_expr (as ! i) (as ! j))"

text \<open>
  The invariant of the loop of \<open>Normalize\<close>, for the array \<open>orig\<close> at the call:
  the literals from \<open>i2\<close> on are untouched; the \<open>i1\<close> literals kept come from \<open>orig\<close>,
  are pairwise neither jointly valid nor subsuming, and properly subsume no literal
  still to come; and every literal read so far subsumes a literal that is kept or
  still to come.
\<close>

definition Normalize_inv :: "Literal list \<Rightarrow> nat \<Rightarrow> Literal list \<Rightarrow> nat \<Rightarrow> nat \<Rightarrow> bool" where
  "Normalize_inv orig n as i1 i2 \<longleftrightarrow>
     i1 \<le> i2 \<and> i2 \<le> n \<and> length as = length orig \<and> n \<le> length orig \<and>
     (\<forall>k. i2 \<le> k \<and> k < n \<longrightarrow> as ! k = orig ! k) \<and>
     (\<forall>a<i1. \<exists>m<i2. as ! a = orig ! m) \<and>
     (\<forall>a<i1. \<forall>b<i1. a \<noteq> b \<longrightarrow>
        \<not> Valid_expr (as ! a) (as ! b) \<and> \<not> Subsumes (as ! a) (as ! b)) \<and>
     (\<forall>a<i1. \<forall>k. i2 \<le> k \<and> k < n \<longrightarrow> \<not> ProperlySubsumes (as ! a) (orig ! k)) \<and>
     (\<forall>m<i2. (\<exists>a<i1. Subsumes (orig ! m) (as ! a)) \<or>
              (\<exists>k. i2 \<le> k \<and> k < n \<and> Subsumes (orig ! m) (orig ! k)))"

text \<open>What \<open>Normalize\<close> returns for the array \<open>orig\<close>: the result \<open>r\<close> and the array.\<close>

definition Normalize_post :: "Literal list \<Rightarrow> nat \<Rightarrow> int \<Rightarrow> Literal list \<Rightarrow> bool" where
  "Normalize_post orig n r as \<longleftrightarrow>
     length as = length orig \<and>
     (if jointly_valid_pair n orig then r = - 1 \<and> as ! 0 = Lit_null
      else 0 \<le> r \<and> nat r \<le> n \<and>
           (\<forall>a<nat r. \<forall>b<nat r. a \<noteq> b \<longrightarrow>
              \<not> Valid_expr (as ! a) (as ! b) \<and> \<not> Subsumes (as ! a) (as ! b)))"

subsection \<open>Term factories\<close>

text \<open>
  The ids of a heap with \<open>n\<close> entries are \<open>(k << 1) | name\<close> for \<open>k = 1, \<dots>, n\<close>, computed in
  \<open>u32\<close>: they are different and are read back by \<open>Factory::get\<close> as long as both
  heaps hold fewer than \<open>2 ^ 31\<close> entries.
\<close>

definition heaps_bounded :: "Factory \<Rightarrow> bool" where
  "heaps_bounded tf \<longleftrightarrow>
     length (name_heap tf) < 2 ^ 31 \<and> length (variable_and_function_heap tf) < 2 ^ 31"

text \<open>The id \<open>t\<close> is the id of a term of the factory: \<open>Factory::get\<close> finds its data.\<close>

definition Term_in :: "Factory \<Rightarrow> Term \<Rightarrow> bool" where
  "Term_in tf t = (case Factory_get tf t of Inl e \<Rightarrow> False | Inr d \<Rightarrow> True)"

text \<open>
  The value of \<open>const bool name\<close> in \<open>CreateTerm\<close> for the data \<open>d\<close>, as a predicate: the
  symbol is a name, or it is a function of a rigid sort and every argument has the name
  bit and is no function term.
\<close>

definition name_data :: "Factory \<Rightarrow> Data \<Rightarrow> bool" where
  "name_data tf d \<longleftrightarrow>
     Symbol_name (symbol d) \<or>
     (Sort_rigid (sym_sort (symbol d)) \<and> Symbol_function (symbol d) \<and>
      (\<forall>t\<in>set (args d). Term_name t \<and> Term_function tf t = Inr False))"

text \<open>
  The invariants of a factory. Every entry of \<open>memory_\<close> leads to the data it was
  stored for (\<open>memory_inv\<close>); the name heap holds the data for which \<open>name\<close> was true
  and the other heap the data for which it was false, and the arguments of all data are
  terms of the factory (\<open>heap_inv\<close>).
\<close>

definition memory_inv :: "Factory \<Rightarrow> bool" where
  "memory_inv tf \<longleftrightarrow>
     (\<forall>so k i. memory tf so k = Some i \<longrightarrow>
        (\<exists>d. Factory_get tf i = Inr d \<and> sym_sort (symbol d) = so
              \<and> (sym_id (symbol d), args d) = k))"

definition heap_inv :: "Factory \<Rightarrow> bool" where
  "heap_inv tf \<longleftrightarrow>
     (\<forall>d\<in>set (name_heap tf). name_data tf d \<and> (\<forall>t\<in>set (args d). Term_in tf t)) \<and>
     (\<forall>d\<in>set (variable_and_function_heap tf).
        \<not> name_data tf d \<and> (\<forall>t\<in>set (args d). Term_in tf t))"

definition factory_inv :: "Factory \<Rightarrow> bool" where
  "factory_inv tf \<longleftrightarrow> heaps_bounded tf \<and> memory_inv tf \<and> heap_inv tf"

text \<open>\<open>later tf tf1\<close>: calls of \<open>CreateTerm\<close> lead from the factory \<open>tf\<close> to \<open>tf1\<close>.\<close>

inductive later :: "Factory \<Rightarrow> Factory \<Rightarrow> bool" where
  later_refl: "later tf tf"
| later_step: "later tf tf1 \<Longrightarrow> CreateTerm tf1 s ts = Inr (t, tf2) \<Longrightarrow> later tf tf2"

text \<open>Both sides of the literal are terms of the factory.\<close>

definition Literal_in :: "Factory \<Rightarrow> Literal \<Rightarrow> bool" where
  "Literal_in tf a \<longleftrightarrow> Term_in tf (lhs a) \<and> Term_in tf (rhs a)"

subsection \<open>Example factories\<close>

text \<open>
  Symbols as \<open>Symbol::Factory\<close> makes them: the names \<open>n1 = CreateName(1, s0)\<close> and
  \<open>n2 = CreateName(2, s0)\<close> and the function \<open>g = CreateFunction(1, s0, 1)\<close> of the
  non-rigid sort \<open>s0 = Nonrigid(0)\<close>, and the function \<open>f = CreateFunction(2, s1, 1)\<close>
  of the rigid sort \<open>s1 = Rigid(0)\<close>. The factories are those after the calls
  \<open>n1\<close> (\<open>ex_tf1\<close>), \<open>n1, n2\<close> (\<open>ex_tf2\<close>), \<open>n1, n2, g(n1)\<close> (\<open>ex_tf3\<close>),
  \<open>n1, f(n1)\<close> (\<open>ex_tfA\<close>) and \<open>n1, f(n1), f(f(n1))\<close> (\<open>ex_tfB\<close>).
\<close>

definition ex_n1 :: Symbol where
  "ex_n1 = \<lparr>sym_id = 4, sym_sort = 0, sym_arity = 0\<rparr>"

definition ex_n2 :: Symbol where
  "ex_n2 = \<lparr>sym_id = 8, sym_sort = 0, sym_arity = 0\<rparr>"

definition ex_g :: Symbol where
  "ex_g = \<lparr>sym_id = 6, sym_sort = 0, sym_arity = 1\<rparr>"

definition ex_f :: Symbol where
  "ex_f = \<lparr>sym_id = 10, sym_sort = 1, sym_arity = 1\<rparr>"

definition ex_tf1 :: Factory where
  "ex_tf1 = \<lparr>memory = (\<lambda>so. Map.empty)(0 := [(4, []) \<mapsto> 3]),
             name_heap = [\<lparr>symbol = ex_n1, args = []\<rparr>],
             variable_and_function_heap = []\<rparr>"

definition ex_tf2 :: Factory where
  "ex_tf2 = \<lparr>memory = (\<lambda>so. Map.empty)(0 := [(4, []) \<mapsto> 3, (8, []) \<mapsto> 5]),
             name_heap = [\<lparr>symbol = ex_n1, args = []\<rparr>, \<lparr>symbol = ex_n2, args = []\<rparr>],
             variable_and_function_heap = []\<rparr>"


definition ex_tfA :: Factory where
  "ex_tfA = \<lparr>memory = (\<lambda>so. Map.empty)(0 := [(4, []) \<mapsto> 3], 1 := [(10, [3]) \<mapsto> 5]),
             name_heap = [\<lparr>symbol = ex_n1, args = []\<rparr>, \<lparr>symbol = ex_f, args = [3]\<rparr>],
             variable_and_function_heap = []\<rparr>"

definition ex_tfB :: Factory where
  "ex_tfB = \<lparr>memory = (\<lambda>so. Map.empty)(0 := [(4, []) \<mapsto> 3],
                 1 := [(10, [3]) \<mapsto> 5, (10, [5]) \<mapsto> 2]),
             name_heap = [\<lparr>symbol = ex_n1, args = []\<rparr>, \<lparr>symbol = ex_f, args = [3]\<rparr>],
             variable_and_function_heap = [\<lparr>symbol = ex_f, args = [5]\<rparr>]\<rparr>"

definition ex_tf3 :: Factory where
  "ex_tf3 = \<lparr>memory = (\<lambda>so. Map.empty)(0 := [(4, []) \<mapsto> 3, (8, []) \<mapsto> 5, (6, [3]) \<mapsto> 2]),
             name_heap = [\<lparr>symbol = ex_n1, args = []\<rparr>, \<lparr>symbol = ex_n2, args = []\<rparr>],
             variable_and_function_heap = [\<lparr>symbol = ex_g, args = [3]\<rparr>]\<rparr>"

section \<open>Properties of vector.c\<close>

declare search_loop.simps [simp del]
declare insert_pos_loop.simps [simp del]
declare generate_varmaps.simps [simp del]
declare query_ground_quantifier.simps [simp del]
declare query_ennf_quantifier.simps [simp del]
declare Normalize_first.simps [simp del]
declare Normalize_second.simps [simp del]
declare Normalize_loop.simps [simp del]

lemma upto_0_0: "[0..(0::int)] = [0]"
  by (simp add: upto.simps)

lemma upto_0_minus_1: "[0..(- 1::int)] = []"
  by (simp add: upto.simps)

text \<open>
  C10. The claim: for \<open>0 \<le> from \<le> to \<le> size(v)\<close> the view \<open>vector_sub(v, from, to)\<close>
  has size \<open>to - from\<close> and its \<open>i\<close>-th element is the \<open>(from + i)\<close>-th element of \<open>v\<close>.
  On the vector \<open>v\<close> of the ten elements 0 to 9 and \<open>from = 1\<close>, \<open>to = 2\<close> the view has
  size 1, but its element 0 is cell 8 of \<open>v\<close>, the value 8, where \<open>v\<close> has 1 at index 1;
  \<open>vector_copy_range\<close>, which adds \<open>from\<close> alone to the pointer, returns the 1.
\<close>

theorem vector_sub_scaled_offset:
  "vector_get (vector_sub \<lparr>array = [0, 1, 2, 3, 4, 5, 6, 7, 8, 9 :: nat],
                           capacity = 16, size' = 10\<rparr> 1 2) 0 = Inr 8
   \<and> vector_get \<lparr>array = [0, 1, 2, 3, 4, 5, 6, 7, 8, 9 :: nat],
                 capacity = 16, size' = 10\<rparr> (1 + 0) = Inr 1
   \<and> vector_get (vector_copy_range \<lparr>array = [0, 1, 2, 3, 4, 5, 6, 7, 8, 9 :: nat],
                                   capacity = 16, size' = 10\<rparr> 1 2) 0 = Inr 1"
  by (simp add: vector_get_def vector_sub_def vector_copy_range_def sizeof_ptr_def
      INIT_SIZE_def)

text \<open>With \<open>from = 0\<close> the scaled offset is 0 as well, and the view is a prefix.\<close>

lemma vector_sub_from_0:
  assumes "0 \<le> to" and "to \<le> size' v" and "size' v = int (length (array v))"
    and "0 \<le> i" and "i < to"
  shows "size' (vector_sub v 0 to) = to
         \<and> vector_get (vector_sub v 0 to) i = vector_get v (0 + i)"
  using assms by (auto simp: vector_sub_def vector_get_def)

section \<open>Properties of set.c\<close>

subsection \<open>Comparators\<close>

lemma compar_antisym:
  assumes "valid_compar cmp"
  shows "(cmp x y < 0) = (cmp y x > 0)" and "(cmp x y = 0) = (cmp y x = 0)"
proof -
  from assms have a: "\<And>x y. (cmp x y < 0) = (cmp y x > 0)"
    by (simp add: valid_compar_def)
  show "(cmp x y < 0) = (cmp y x > 0)" by (rule a)
  from a [of x y] a [of y x] show "(cmp x y = 0) = (cmp y x = 0)" by linarith
qed

lemma compar_le_trans:
  assumes "valid_compar cmp" and "cmp x y \<le> 0" and "cmp y z \<le> 0"
  shows "cmp x z \<le> 0"
  using assms unfolding valid_compar_def by blast


lemma compar_less_le_trans:
  assumes v: "valid_compar cmp" and xy: "cmp x y < 0" and yz: "cmp y z \<le> 0"
  shows "cmp x z < 0"
proof (rule ccontr)
  assume "\<not> cmp x z < 0"
  moreover from xy have "cmp x y \<le> 0" by simp
  with v have "cmp x z \<le> 0" using yz by (rule compar_le_trans)
  ultimately have "cmp x z = 0" by simp
  then have "cmp z x \<le> 0" using compar_antisym(2) [OF v, of x z] by simp
  with v yz have "cmp y x \<le> 0" by (rule compar_le_trans)
  with xy compar_antisym(1) [OF v, of x y] show False by simp
qed



subsection \<open>Vectors\<close>







subsection \<open>Binary search\<close>





subsection \<open>Sorted lists\<close>







subsection \<open>The operations on one set\<close>







subsection \<open>The loop invariant\<close>











subsection \<open>\<open>set_intersection\<close>\<close>



subsection \<open>\<open>set_difference\<close>\<close>




subsection \<open>\<open>set_union\<close>\<close>





subsection \<open>Reachable sets\<close>






lemma set_add_example:
  "set_add ex_set 5
     = Inr (True, \<lparr>vec = \<lparr>array = [3, 5], capacity = 4, size' = 2\<rparr>, compar = ex_compar\<rparr>)
   \<and> set_add ex_set 3 = Inr (False, ex_set)"
  by (simp add: set_add_def insert_pos_def insert_pos_loop.simps vector_size_def
      vector_insert_def vector_get_def ex_set_def ex_compar_def signed_divide_int_def)


section \<open>Properties of clause.c\<close>

lemma ground_clauses_prefixes_id: "ground_clauses_prefixes setup z = Inr setup"
proof -
  have "fold (\<lambda>k st. case st of Inl e \<Rightarrow> Inl e
                | Inr setup' \<Rightarrow> (let z_prefix = vector_sub z 0 k in Inr setup'))
          ks (Inr setup) = Inr setup" for ks
    by (induction ks) simp_all
  then show ?thesis
    by (simp add: ground_clauses_prefixes_def)
qed

text \<open>A loop whose body hands errors through and leaves the state as it is.\<close>

lemma fold_keeps_state:
  assumes "\<And>k e. f k (Inl e) = Inl e"
    and "\<And>k x. f k (Inr x) = Inr x \<or> (\<exists>e. f k (Inr x) = Inl e)"
    and "fold f ks st = Inr s"
  shows "st = Inr s"
  using assms(3)
proof (induction ks arbitrary: st)
  case Nil
  then show ?case by simp
next
  case (Cons k ks)
  then have step: "f k st = Inr s" by simp
  show ?case
  proof (cases st)
    case (Inl e)
    with step assms(1) show ?thesis by simp
  next
    case (Inr x)
    with step assms(2) [of k x] show ?thesis by auto
  qed
qed

lemma ground_clauses_zs_id:
  assumes "ground_clauses_zs setup zs = Inr s"
  shows "s = setup"
proof -
  have "Inr setup = (Inr s :: error + 'a set_t)"
  proof (rule fold_keeps_state [OF _ _ assms [unfolded ground_clauses_zs_def]])
    fix k :: int and x :: "'a set_t"
    show "(case Inr x of Inl e \<Rightarrow> Inl e
           | Inr setup' \<Rightarrow> (case set_get zs k of Inl e \<Rightarrow> Inl e
                 | Inr z \<Rightarrow> ground_clauses_prefixes setup' z)) = Inr x
          \<or> (\<exists>e. (case Inr x of Inl e \<Rightarrow> Inl e
           | Inr setup' \<Rightarrow> (case set_get zs k of Inl e \<Rightarrow> Inl e
                 | Inr z \<Rightarrow> ground_clauses_prefixes setup' z)) = Inl e)"
      by (cases "set_get zs k") (simp_all add: ground_clauses_prefixes_id)
  qed simp
  then show ?thesis by simp
qed

lemma ground_clauses_loop_id:
  assumes "fold (\<lambda>i st. case st of Inl e \<Rightarrow> Inl e
                     | Inr setup' \<Rightarrow> ground_clauses_zs setup' zs) ks st = Inr s"
  shows "st = Inr s"
proof (rule fold_keeps_state [OF _ _ assms])
  fix k :: 'b and x :: "'a set_t"
  show "(case Inr x of Inl e \<Rightarrow> Inl e | Inr setup' \<Rightarrow> ground_clauses_zs setup' zs) = Inr x
        \<or> (\<exists>e. (case Inr x of Inl e \<Rightarrow> Inl e | Inr setup' \<Rightarrow> ground_clauses_zs setup' zs) = Inl e)"
    by (cases "ground_clauses_zs x zs") (auto dest: ground_clauses_zs_id)
qed simp

text \<open>
  Whatever the boxed clauses, the action sequences and the names are: a setup that
  \<open>ground_clauses\<close> returns is the empty setup of \<open>setup_init\<close>.
\<close>

lemma ground_clauses_empty:
  assumes "ground_clauses clause_cmp univ_clauses zs ns = Inr s"
  shows "s = \<lparr>vec = \<lparr>array = [], capacity = 4, size' = 0\<rparr>, compar = clause_cmp\<rparr>"
proof -
  have init: "set_init clause_cmp = Inr \<lparr>vec = \<lparr>array = [], capacity = 4, size' = 0\<rparr>, compar = clause_cmp\<rparr>"
    by (simp add: set_init_def vector_init_def vector_init_with_size_def INIT_SIZE_def)
  from assms show ?thesis
    unfolding ground_clauses_def init
    by (auto split: sum.splits dest!: ground_clauses_loop_id)
qed

lemma generate_varmaps_example:
  "generate_varmaps \<lparr>vec = \<lparr>array = [], capacity = 4, size' = 0\<rparr>, compar = clause_cmp\<rparr>
      (varmap_init_with_size 1)
      \<lparr>vars = \<lparr>vec = \<lparr>array = [- 1], capacity = 4, size' = 1\<rparr>, compar = var_cmp\<rparr>,
       univ_clause = (\<lambda>varmap. if varmap (- 1) = Some 7 then Some c else None)\<rparr>
      zs
      \<lparr>vec = \<lparr>array = [7], capacity = 4, size' = 1\<rparr>, compar = stdname_cmp\<rparr> 0
    = Inr (\<lparr>vec = \<lparr>array = [c], capacity = 4, size' = 1\<rparr>, compar = clause_cmp\<rparr>,
           [- 1 \<mapsto> 7])"
  by (simp add: generate_varmaps.simps insert_pos_loop.simps upto_0_0 upto_0_minus_1
      set_size_def vector_size_def set_get_def vector_get_def varmap_init_with_size_def
      varmap_add_replace_def set_add_def insert_pos_def vector_insert_def)

text \<open>
  C1. The claim: for every boxed clause, every \<open>z \<in> Z\<close> and every assignment \<open>\<sigma>\<close> over
  \<open>H\<^sup>+\<close> that satisfies the condition of the clause, the setup returned by
  \<open>ground_clauses\<close> contains \<open>C(\<sigma>)\<close> with \<open>z\<close> in front of every literal; with a
  satisfying assignment and a non-empty \<open>Z\<close> the setup is not empty.
  Take one boxed clause with the variable \<open>-1\<close>, whose condition holds when \<open>-1\<close> is
  the name 7 and whose clause is then \<open>c\<close>, the names \<open>{7}\<close> and \<open>Z = {[9]}\<close>. The first
  half of \<open>ground_clauses\<close> has \<open>c\<close> in \<open>box_clauses\<close>; the setup returned is empty.
\<close>

theorem ground_clauses_returns_empty_setup:
  "generate_varmaps \<lparr>vec = \<lparr>array = [], capacity = 4, size' = 0\<rparr>, compar = clause_cmp\<rparr>
      (varmap_init_with_size 1)
      \<lparr>vars = \<lparr>vec = \<lparr>array = [- 1], capacity = 4, size' = 1\<rparr>, compar = var_cmp\<rparr>,
       univ_clause = (\<lambda>varmap. if varmap (- 1) = Some 7 then Some c else None)\<rparr>
      \<lparr>vec = \<lparr>array = [\<lparr>array = [9], capacity = 4, size' = 1\<rparr>], capacity = 4, size' = 1\<rparr>,
       compar = stdvec_cmp\<rparr>
      \<lparr>vec = \<lparr>array = [7], capacity = 4, size' = 1\<rparr>, compar = stdname_cmp\<rparr> 0
    = Inr (\<lparr>vec = \<lparr>array = [c], capacity = 4, size' = 1\<rparr>, compar = clause_cmp\<rparr>,
           [- 1 \<mapsto> 7])
   \<and> ground_clauses clause_cmp
      [\<lparr>vars = \<lparr>vec = \<lparr>array = [- 1], capacity = 4, size' = 1\<rparr>, compar = var_cmp\<rparr>,
        univ_clause = (\<lambda>varmap. if varmap (- 1) = Some 7 then Some c else None)\<rparr>]
      \<lparr>vec = \<lparr>array = [\<lparr>array = [9], capacity = 4, size' = 1\<rparr>], capacity = 4, size' = 1\<rparr>,
       compar = stdvec_cmp\<rparr>
      \<lparr>vec = \<lparr>array = [7], capacity = 4, size' = 1\<rparr>, compar = stdname_cmp\<rparr>
    = Inr \<lparr>vec = \<lparr>array = [], capacity = 4, size' = 0\<rparr>, compar = clause_cmp\<rparr>"
proof (rule conjI)
  show "generate_varmaps \<lparr>vec = \<lparr>array = [], capacity = 4, size' = 0\<rparr>, compar = clause_cmp\<rparr>
      (varmap_init_with_size 1)
      \<lparr>vars = \<lparr>vec = \<lparr>array = [- 1], capacity = 4, size' = 1\<rparr>, compar = var_cmp\<rparr>,
       univ_clause = (\<lambda>varmap. if varmap (- 1) = Some 7 then Some c else None)\<rparr>
      \<lparr>vec = \<lparr>array = [\<lparr>array = [9], capacity = 4, size' = 1\<rparr>], capacity = 4, size' = 1\<rparr>,
       compar = stdvec_cmp\<rparr>
      \<lparr>vec = \<lparr>array = [7], capacity = 4, size' = 1\<rparr>, compar = stdname_cmp\<rparr> 0
    = Inr (\<lparr>vec = \<lparr>array = [c], capacity = 4, size' = 1\<rparr>, compar = clause_cmp\<rparr>,
           [- 1 \<mapsto> 7])"
    by (rule generate_varmaps_example)
next
  show "ground_clauses clause_cmp
      [\<lparr>vars = \<lparr>vec = \<lparr>array = [- 1], capacity = 4, size' = 1\<rparr>, compar = var_cmp\<rparr>,
        univ_clause = (\<lambda>varmap. if varmap (- 1) = Some 7 then Some c else None)\<rparr>]
      \<lparr>vec = \<lparr>array = [\<lparr>array = [9], capacity = 4, size' = 1\<rparr>], capacity = 4, size' = 1\<rparr>,
       compar = stdvec_cmp\<rparr>
      \<lparr>vec = \<lparr>array = [7], capacity = 4, size' = 1\<rparr>, compar = stdname_cmp\<rparr>
    = Inr \<lparr>vec = \<lparr>array = [], capacity = 4, size' = 0\<rparr>, compar = clause_cmp\<rparr>"
    by (simp add: ground_clauses_def generate_varmaps_example ground_clauses_zs_def
        ground_clauses_prefixes_id upto_0_0
        set_init_def vector_init_def vector_init_with_size_def INIT_SIZE_def
        set_size_def vector_size_def set_get_def vector_get_def)
qed

section \<open>Properties of query.c\<close>

text \<open>
  The \<open>EX\<close> case of \<open>query_ennf_h\<close> as the source has it: the ENNF of the grounded
  formula.
\<close>

lemma query_ennf_quantifier_ground:
  assumes "query_ground_quantifier (\<not> fl) phi hplus i = Inr psi"
  shows "query_ennf_quantifier (\<lambda>n. query_ennf_h (phi n) hplus fl zz) hplus i
         = query_ennf_h psi hplus fl zz"
  using assms
proof (induction "\<not> fl" phi hplus i arbitrary: psi rule: query_ground_quantifier.induct)
  case (1 phi hplus i)
  let ?r = "\<lambda>n. query_ennf_h (phi n) hplus fl zz"
  from "1.prems" have range: "0 \<le> i \<and> i \<le> set_size hplus"
    by (subst (asm) query_ground_quantifier.simps) (simp split: if_splits)
  from "1.prems" range obtain n where n: "set_get hplus i = Inr n"
    by (subst (asm) query_ground_quantifier.simps) (simp split: sum.splits)
  show ?case
  proof (cases "i + 1 = set_size hplus")
    case True
    with "1.prems" range n have "psi = phi n"
      by (subst (asm) query_ground_quantifier.simps) simp
    with True range n show ?thesis
      by (subst query_ennf_quantifier.simps) simp
  next
    case False
    with "1.prems" range n obtain psi2 where
      psi2: "query_ground_quantifier (\<not> fl) phi hplus (i + 1) = Inr psi2"
      and psi: "psi = (if \<not> fl then OR' (phi n) psi2 else AND' (phi n) psi2)"
      by (subst (asm) query_ground_quantifier.simps) (simp add: Let_def split: sum.splits)
    from range n False psi2
    have "query_ennf_quantifier ?r hplus (i + 1) = query_ennf_h psi2 hplus fl zz"
      by (intro "1.hyps") simp_all
    with False range n psi show ?thesis
      by (subst query_ennf_quantifier.simps) (cases fl; simp cong: sum.case_cong)
  qed
qed

lemma query_ennf_h_EX:
  "query_ennf_h (EX' phi) hplus fl zz =
     (case query_ground_quantifier (\<not> fl) phi hplus 0 of
        Inl e \<Rightarrow> Inl e
      | Inr psi \<Rightarrow> query_ennf_h psi hplus fl zz)"
  by (simp add: query_ennf_quantifier_ground split: sum.splits)

text \<open>
  C4. The claim: ENNF pushes negations down to the (in)equalities over names; under an
  odd number of negations \<open>n1 = n2\<close> becomes \<open>n1 \<noteq> n2\<close> and \<open>n1 \<noteq> n2\<close> becomes
  \<open>n1 = n2\<close>. The \<open>NEQ\<close> case of \<open>query_ennf_h\<close> under \<open>flip\<close> writes \<open>.type = NEQ\<close>,
  as the \<open>EQ\<close> case does: the ENNF of \<open>\<not> (1 \<noteq> 2)\<close> is \<open>1 \<noteq> 2\<close>, where the claim has
  \<open>1 = 2\<close>; the negated equality does become an inequality.
\<close>

theorem query_ennf_negated_inequality:
  "query_ennf (NEG (NEQ 1 2)) hplus = Inr (NEQ 1 2)
   \<and> query_ennf (NEG (EQ 1 2)) hplus = Inr (NEQ 1 2)"
  by (simp add: query_ennf_def)

text \<open>
  C3. The claim: \<open>query_simplify\<close> folds the (in)equalities of names to constants and
  propagates them through \<open>\<or>\<close> and \<open>\<and>\<close> by the Boolean rules; a disjunction with a
  disjunct that folds to false simplifies to the other disjunct.
  The \<open>OR\<close> case tests the pointer \<open>truth_value\<close> where the value \<open>*truth_value\<close> is
  meant: with the false disjunct \<open>1 = 2\<close> the test holds, and the function leaves
  through \<open>query_free(phi)\<close> and \<open>return NULL\<close>. \<open>query_free\<close> follows the child
  pointer that has just been set to \<open>NULL\<close>. The other disjunct, the literal \<open>l\<close>, is
  not returned. In the \<open>AND\<close> case the test on \<open>!truth_value\<close> never holds, and a
  conjunction with the false conjunct \<open>1 = 2\<close> simplifies to the other conjunct.
\<close>

theorem query_simplify_false_disjunct:
  "query_simplify (OR' (EQ 1 2) (LIT l)) tv = Inl NullPointerDereference
   \<and> query_simplify (OR' (LIT l) (EQ 1 2)) tv = Inl NullPointerDereference
   \<and> query_simplify (AND' (EQ 1 2) (LIT l)) tv = Inr (Some (LIT l), False)"
  by (simp add: truth_value_ptr_def query_free_binary_def)

section \<open>Properties of limbo/clause.h\<close>

lemma Clause_eq_outer_True: "Clause_eq_outer as cs"
  by (induction as) simp_all

text \<open>\<open>Clause::operator==\<close> compares the sizes and nothing else.\<close>

lemma Clause_eq_sizes: "Clause_eq c d = (h_size c = h_size d)"
  by (simp add: Clause_eq_def Clause_size_def Clause_eq_outer_True)

text \<open>
  C2. The claim: \<open>Clause::operator==\<close> returns true if and only if the two clauses
  have the same set of literals; two clauses of equal size with different sets of
  literals compare unequal. The unit clauses of the literals \<open>f(n1) = n1\<close> and
  \<open>f(n1) = n2\<close> (with the term ids 2 for \<open>f(n1)\<close>, 3 for \<open>n1\<close> and 5 for \<open>n2\<close>) have
  one size and different literals, and \<open>operator==\<close> returns true for them;
  \<open>Clause::Subsumes\<close>, which has a \<open>return false\<close> behind its inner loop, tells them
  apart.
\<close>

theorem Clause_eq_different_literals:
  "Clause_eq \<lparr>h_size = 1, as' = [0x8000000300000002]\<rparr>
             \<lparr>h_size = 1, as' = [0x8000000500000002]\<rparr>
   \<and> \<not> Literal_eq 0x8000000300000002 0x8000000500000002
   \<and> \<not> Clause_Subsumes \<lparr>h_size = 1, as' = [0x8000000300000002]\<rparr>
                        \<lparr>h_size = 1, as' = [0x8000000500000002]\<rparr>"
  by (simp add: Clause_eq_def Clause_size_def Clause_lits_def Clause_Subsumes_def
      Subsumes_def ProperlySubsumes_def Literal_eq_def rhs_def lhs_def pos_def)

section \<open>Normalization: limbo/clause.h, Normalize and the constructor\<close>

lemma Literal_eq_refl: "Literal_eq a a" by (simp add: Literal_eq_def)
lemma Literal_eq_sym: "Literal_eq a b \<Longrightarrow> Literal_eq b a" by (simp add: Literal_eq_def)
lemma Valid_expr_sym: "Valid_expr a b \<Longrightarrow> Valid_expr b a"
  by (auto simp: Valid_expr_def)
lemma Valid_expr_irrefl: "\<not> Valid_expr a a"
  by (auto simp: Valid_expr_def)
lemma Subsumes_refl: "Subsumes a a" by (simp add: Subsumes_def Literal_eq_def)
lemma Subsumes_trans: "Subsumes a b \<Longrightarrow> Subsumes b c \<Longrightarrow> Subsumes a c"
  by (auto simp: Subsumes_def Literal_eq_def ProperlySubsumes_def)
lemma ProperlySubsumes_Subsumes: "ProperlySubsumes a b \<Longrightarrow> Subsumes a b"
  by (simp add: Subsumes_def)
lemma Subsumes_cases: "Subsumes a b \<Longrightarrow> Subsumes b a \<or> ProperlySubsumes a b"
  by (auto simp: Subsumes_def Literal_eq_def)
lemma Valid_expr_Subsumes:
  "Valid_expr a b \<Longrightarrow> Subsumes a a' \<Longrightarrow> Subsumes b b' \<Longrightarrow> Valid_expr a' b'"
  by (auto simp: Valid_expr_def Subsumes_def Literal_eq_def ProperlySubsumes_def)


lemma Normalize_first_valid:
  "Normalize_first g as i1 i2 j = Scan_valid \<Longrightarrow>
     \<not> g \<and> (\<exists>k. j \<le> k \<and> k < i1 \<and> Valid_expr (as ! i2) (as ! k))"
proof (induction g as i1 i2 j rule: Normalize_first.induct)
  case (1 g as i1 i2 j)
  then show ?case
    by (subst (asm) (2) Normalize_first.simps) (auto split: if_splits intro: order.trans Suc_leD)
qed

lemma Normalize_first_next:
  "Normalize_first g as i1 i2 j = Scan_next \<Longrightarrow>
     (\<exists>k. j \<le> k \<and> k < i1 \<and> Subsumes (as ! i2) (as ! k))"
proof (induction g as i1 i2 j rule: Normalize_first.induct)
  case (1 g as i1 i2 j)
  then show ?case
    by (subst (asm) (2) Normalize_first.simps) (auto split: if_splits intro: order.trans Suc_leD)
qed

lemma Normalize_first_done:
  "Normalize_first g as i1 i2 j = Scan_done \<Longrightarrow> j \<le> k \<Longrightarrow> k < i1 \<Longrightarrow>
     (g \<or> \<not> Valid_expr (as ! i2) (as ! k)) \<and> \<not> Subsumes (as ! i2) (as ! k)"
proof (induction g as i1 i2 j rule: Normalize_first.induct)
  case (1 g as i1 i2 j)
  from "1.prems" have j: "j < i1" by simp
  from "1.prems"(1) j have
    nv: "g \<or> \<not> Valid_expr (as ! i2) (as ! j)" and ns: "\<not> Subsumes (as ! i2) (as ! j)"
    and rest: "Normalize_first g as i1 i2 (j + 1) = Scan_done"
    by (subst (asm) Normalize_first.simps; auto split: if_splits)+
  show ?case
  proof (cases "k = j")
    case True
    with nv ns show ?thesis by simp
  next
    case False
    with "1.prems" have "j + 1 \<le> k" by simp
    with "1.IH" [OF j _ _ rest] nv ns "1.prems" show ?thesis by auto
  qed
qed

lemma Normalize_second_next:
  "Normalize_second as n i2 j = Scan_next \<Longrightarrow>
     (\<exists>k. j \<le> k \<and> k < n \<and> ProperlySubsumes (as ! i2) (as ! k))"
proof (induction as n i2 j rule: Normalize_second.induct)
  case (1 as n i2 j)
  then show ?case
    by (subst (asm) (2) Normalize_second.simps) (auto split: if_splits intro: order.trans Suc_leD)
qed

lemma Normalize_second_done:
  "Normalize_second as n i2 j \<noteq> Scan_next \<Longrightarrow> j \<le> k \<Longrightarrow> k < n \<Longrightarrow>
     \<not> ProperlySubsumes (as ! i2) (as ! k)"
proof (induction as n i2 j rule: Normalize_second.induct)
  case (1 as n i2 j)
  from "1.prems" have j: "j < n" by simp
  from "1.prems"(1) j have
    ns: "\<not> ProperlySubsumes (as ! i2) (as ! j)"
    and rest: "Normalize_second as n i2 (j + 1) \<noteq> Scan_next"
    by (subst (asm) Normalize_second.simps; auto split: if_splits)+
  show ?case
  proof (cases "k = j")
    case True
    with ns show ?thesis by simp
  next
    case False
    with "1.prems" have "j + 1 \<le> k" by simp
    with "1.IH" [OF j ns rest] "1.prems" show ?thesis by auto
  qed
qed

lemma Normalize_inv_init: "n \<le> length orig \<Longrightarrow> Normalize_inv orig n orig 0 0"
  by (simp add: Normalize_inv_def)

lemma Normalize_inv_drop:
  assumes inv: "Normalize_inv orig n as i1 i2" and i2: "i2 < n"
    and sub: "(\<exists>a<i1. Subsumes (as ! i2) (as ! a)) \<or>
              (\<exists>k. i2 < k \<and> k < n \<and> ProperlySubsumes (as ! i2) (as ! k))"
  shows "Normalize_inv orig n as i1 (i2 + 1)"
proof -
  from inv have b: "i1 \<le> i2" "i2 \<le> n" "length as = length orig" "n \<le> length orig"
    and fut: "\<And>k. i2 \<le> k \<Longrightarrow> k < n \<Longrightarrow> as ! k = orig ! k"
    and src: "\<And>a. a < i1 \<Longrightarrow> \<exists>m<i2. as ! a = orig ! m"
    and pw: "\<And>a b. a < i1 \<Longrightarrow> b < i1 \<Longrightarrow> a \<noteq> b \<Longrightarrow>
               \<not> Valid_expr (as ! a) (as ! b) \<and> \<not> Subsumes (as ! a) (as ! b)"
    and kf: "\<And>a k. a < i1 \<Longrightarrow> i2 \<le> k \<Longrightarrow> k < n \<Longrightarrow> \<not> ProperlySubsumes (as ! a) (orig ! k)"
    and cov: "\<And>m. m < i2 \<Longrightarrow> (\<exists>a<i1. Subsumes (orig ! m) (as ! a)) \<or>
              (\<exists>k. i2 \<le> k \<and> k < n \<and> Subsumes (orig ! m) (orig ! k))"
    by (auto simp: Normalize_inv_def)
  have x: "as ! i2 = orig ! i2" using fut [of i2] i2 by simp
  from sub have rep: "(\<exists>a<i1. Subsumes (orig ! i2) (as ! a)) \<or>
              (\<exists>k. i2 + 1 \<le> k \<and> k < n \<and> Subsumes (orig ! i2) (orig ! k))"
  proof
    assume "\<exists>a<i1. Subsumes (as ! i2) (as ! a)"
    with x show ?thesis by auto
  next
    assume "\<exists>k. i2 < k \<and> k < n \<and> ProperlySubsumes (as ! i2) (as ! k)"
    then obtain k where k: "i2 < k" "k < n" "ProperlySubsumes (as ! i2) (as ! k)" by blast
    with fut [of k] x have "Subsumes (orig ! i2) (orig ! k)"
      by (simp add: ProperlySubsumes_Subsumes)
    with k show ?thesis by auto
  qed
  have cov': "(\<exists>a<i1. Subsumes (orig ! m) (as ! a)) \<or>
              (\<exists>k. i2 + 1 \<le> k \<and> k < n \<and> Subsumes (orig ! m) (orig ! k))"
    if m: "m < i2 + 1" for m
  proof (cases "m = i2")
    case True
    with rep show ?thesis by simp
  next
    case False
    with m have "m < i2" by simp
    from cov [OF this] show ?thesis
    proof
      assume "\<exists>a<i1. Subsumes (orig ! m) (as ! a)"
      then show ?thesis ..
    next
      assume "\<exists>k. i2 \<le> k \<and> k < n \<and> Subsumes (orig ! m) (orig ! k)"
      then obtain k where k: "i2 \<le> k" "k < n" "Subsumes (orig ! m) (orig ! k)" by blast
      show ?thesis
      proof (cases "k = i2")
        case True
        with k rep show ?thesis by (blast intro: Subsumes_trans)
      next
        case False
        with k have "i2 + 1 \<le> k" by simp
        with k show ?thesis by blast
      qed
    qed
  qed
  have src': "\<exists>m<i2 + 1. as ! a = orig ! m" if "a < i1" for a
    using src [OF that] by (auto intro: less_SucI)
  show ?thesis
    unfolding Normalize_inv_def
    using b i2 fut src' pw kf cov' by (intro conjI allI impI) auto
qed


lemma Normalize_inv_keep:
  assumes inv: "Normalize_inv orig n as i1 i2" and i2: "i2 < n"
    and first: "\<And>a. a < i1 \<Longrightarrow>
                  \<not> Valid_expr (as ! i2) (as ! a) \<and> \<not> Subsumes (as ! i2) (as ! a)"
    and second: "\<And>k. i2 + 1 \<le> k \<Longrightarrow> k < n \<Longrightarrow> \<not> ProperlySubsumes (as ! i2) (as ! k)"
  shows "Normalize_inv orig n (as[i1 := as ! i2]) (i1 + 1) (i2 + 1)"
proof -
  from inv have b: "i1 \<le> i2" "i2 \<le> n" "length as = length orig" "n \<le> length orig"
    and fut: "\<And>k. i2 \<le> k \<Longrightarrow> k < n \<Longrightarrow> as ! k = orig ! k"
    and src: "\<And>a. a < i1 \<Longrightarrow> \<exists>m<i2. as ! a = orig ! m"
    and pw: "\<And>a b. a < i1 \<Longrightarrow> b < i1 \<Longrightarrow> a \<noteq> b \<Longrightarrow>
               \<not> Valid_expr (as ! a) (as ! b) \<and> \<not> Subsumes (as ! a) (as ! b)"
    and kf: "\<And>a k. a < i1 \<Longrightarrow> i2 \<le> k \<Longrightarrow> k < n \<Longrightarrow> \<not> ProperlySubsumes (as ! a) (orig ! k)"
    and cov: "\<And>m. m < i2 \<Longrightarrow> (\<exists>a<i1. Subsumes (orig ! m) (as ! a)) \<or>
              (\<exists>k. i2 \<le> k \<and> k < n \<and> Subsumes (orig ! m) (orig ! k))"
    by (auto simp: Normalize_inv_def)
  let ?x = "as ! i2"
  let ?as = "as[i1 := ?x]"
  have x: "?x = orig ! i2" using fut [of i2] i2 by simp
  have len: "i1 < length as" using b i2 by simp
  have old: "?as ! a = as ! a" if "a < i1" for a using that by simp
  have new: "?as ! i1 = ?x" using len by simp
  have fut': "?as ! k = orig ! k" if "i2 + 1 \<le> k" "k < n" for k
    using that b fut [of k] by simp
  have src': "\<exists>m<i2 + 1. ?as ! a = orig ! m" if a: "a < i1 + 1" for a
  proof (cases "a = i1")
    case True
    with new x show ?thesis by auto
  next
    case False
    with a have "a < i1" by simp
    with src [OF this] old [OF this] show ?thesis by (auto intro: less_SucI)
  qed
  have notsub: "\<not> Subsumes (as ! a) ?x" if a: "a < i1" for a
  proof
    assume "Subsumes (as ! a) ?x"
    then have "Subsumes ?x (as ! a) \<or> ProperlySubsumes (as ! a) ?x"
      by (rule Subsumes_cases)
    with first [OF a] kf [OF a, of i2] i2 x show False by auto
  qed
  have pw': "\<not> Valid_expr (?as ! a) (?as ! c) \<and> \<not> Subsumes (?as ! a) (?as ! c)"
    if a: "a < i1 + 1" and c: "c < i1 + 1" and ne: "a \<noteq> c" for a c
  proof (cases "a = i1")
    case True
    with c ne have c': "c < i1" by simp
    from first [OF c'] True new old [OF c'] show ?thesis by simp
  next
    case False
    with a have a': "a < i1" by simp
    show ?thesis
    proof (cases "c = i1")
      case True
      from first [OF a'] notsub [OF a'] True new old [OF a'] show ?thesis
        by (auto dest: Valid_expr_sym)
    next
      case False
      with c have c': "c < i1" by simp
      from pw [OF a' c' ne] old [OF a'] old [OF c'] show ?thesis by simp
    qed
  qed
  have kf': "\<not> ProperlySubsumes (?as ! a) (orig ! k)"
    if a: "a < i1 + 1" and k: "i2 + 1 \<le> k" "k < n" for a k
  proof (cases "a = i1")
    case True
    from second [OF k] fut [of k] k True new show ?thesis by simp
  next
    case False
    with a have a': "a < i1" by simp
    from kf [OF a', of k] k old [OF a'] show ?thesis by simp
  qed
  have cov': "(\<exists>a<i1 + 1. Subsumes (orig ! m) (?as ! a)) \<or>
              (\<exists>k. i2 + 1 \<le> k \<and> k < n \<and> Subsumes (orig ! m) (orig ! k))"
    if m: "m < i2 + 1" for m
  proof -
    have rep: "\<exists>a<i1 + 1. Subsumes (orig ! i2) (?as ! a)"
      using new x by (auto intro!: exI [of _ i1] simp: Subsumes_refl)
    show ?thesis
    proof (cases "m = i2")
      case True
      with rep show ?thesis by simp
    next
      case False
      with m have "m < i2" by simp
      from cov [OF this] show ?thesis
      proof
        assume "\<exists>a<i1. Subsumes (orig ! m) (as ! a)"
        then obtain a where "a < i1" "Subsumes (orig ! m) (as ! a)" by blast
        with old [of a] have "a < i1 + 1 \<and> Subsumes (orig ! m) (?as ! a)" by simp
        then show ?thesis by blast
      next
        assume "\<exists>k. i2 \<le> k \<and> k < n \<and> Subsumes (orig ! m) (orig ! k)"
        then obtain k where k: "i2 \<le> k" "k < n" "Subsumes (orig ! m) (orig ! k)" by blast
        show ?thesis
        proof (cases "k = i2")
          case True
          with k new x have "i1 < i1 + 1 \<and> Subsumes (orig ! m) (?as ! i1)" by simp
          then show ?thesis by blast
        next
          case False
          with k have "i2 + 1 \<le> k" by simp
          with k show ?thesis by blast
        qed
      qed
    qed
  qed
  have b': "i1 + 1 \<le> i2 + 1" "i2 + 1 \<le> n" "length ?as = length orig" "n \<le> length orig"
    using b i2 by simp_all
  show ?thesis
    unfolding Normalize_inv_def
    using b' fut' src' pw' kf' cov' by (intro conjI allI impI) blast+
qed

lemma Normalize_inv_valid:
  assumes inv: "Normalize_inv orig n as i1 i2" and i2: "i2 < n"
    and v: "a < i1" "Valid_expr (as ! i2) (as ! a)"
  shows "jointly_valid_pair n orig"
proof -
  from inv have b: "i1 \<le> i2" "i2 \<le> n"
    and fut: "\<And>k. i2 \<le> k \<Longrightarrow> k < n \<Longrightarrow> as ! k = orig ! k"
    and src: "\<And>a. a < i1 \<Longrightarrow> \<exists>m<i2. as ! a = orig ! m"
    by (auto simp: Normalize_inv_def)
  from src [OF v(1)] obtain m where m: "m < i2" "as ! a = orig ! m" by blast
  with fut [of i2] i2 v have "Valid_expr (orig ! i2) (orig ! m)" by simp
  moreover have "m < n" "i2 \<noteq> m" using m i2 by simp_all
  ultimately show ?thesis
    unfolding jointly_valid_pair_def using i2 by blast
qed

lemma Normalize_inv_final:
  assumes inv: "Normalize_inv orig n as i1 n"
  shows "\<not> jointly_valid_pair n orig"
proof
  assume "jointly_valid_pair n orig"
  then obtain p q where pq: "p < n" "q < n" "Valid_expr (orig ! p) (orig ! q)"
    by (auto simp: jointly_valid_pair_def)
  from inv have
    pw: "\<And>a b. a < i1 \<Longrightarrow> b < i1 \<Longrightarrow> a \<noteq> b \<Longrightarrow> \<not> Valid_expr (as ! a) (as ! b)"
    and cov: "\<And>m. m < n \<Longrightarrow> \<exists>a<i1. Subsumes (orig ! m) (as ! a)"
    by (auto simp: Normalize_inv_def)
  from cov [OF pq(1)] obtain a where a: "a < i1" "Subsumes (orig ! p) (as ! a)" by blast
  from cov [OF pq(2)] obtain c where c: "c < i1" "Subsumes (orig ! q) (as ! c)" by blast
  from pq(3) a(2) c(2) have v: "Valid_expr (as ! a) (as ! c)" by (rule Valid_expr_Subsumes)
  show False
  proof (cases "a = c")
    case True
    with v show False by (simp add: Valid_expr_irrefl)
  next
    case False
    with pw [OF a(1) c(1)] v show False by simp
  qed
qed


lemma Normalize_loop_correct:
  assumes "Normalize_inv orig n as i1 i2"
  shows "\<exists>r as1. Normalize_loop False n as i1 i2 = Inr (r, as1) \<and> Normalize_post orig n r as1"
  using assms
proof (induction "n - i2" arbitrary: as i1 i2 rule: less_induct)
  case less
  note inv = less.prems
  from inv have b: "i1 \<le> i2" "i2 \<le> n" "length as = length orig" "n \<le> length orig"
    and pw: "\<And>a b. a < i1 \<Longrightarrow> b < i1 \<Longrightarrow> a \<noteq> b \<Longrightarrow>
               \<not> Valid_expr (as ! a) (as ! b) \<and> \<not> Subsumes (as ! a) (as ! b)"
    by (auto simp: Normalize_inv_def)
  show ?case
  proof (cases "i2 < n")
    case False
    with b have eq: "i2 = n" by simp
    with inv have "\<not> jointly_valid_pair n orig" by (auto dest: Normalize_inv_final)
    with False b pw show ?thesis
      by (subst Normalize_loop.simps) (simp add: Normalize_post_def)
  next
    case True
    have dec: "n - (i2 + 1) < n - i2" using True by simp
    show ?thesis
    proof (cases "Normalize_first False as i1 i2 0")
      case Scan_valid
      from Normalize_first_valid [OF this] obtain k where "k < i1" "Valid_expr (as ! i2) (as ! k)"
        by blast
      with inv True have "jointly_valid_pair n orig" by (rule Normalize_inv_valid)
      moreover have "as \<noteq> []" using b True by auto
      then have "as[0 := Lit_null] ! 0 = Lit_null" by (cases as) simp_all
      ultimately show ?thesis
        using True b Scan_valid
        by (subst Normalize_loop.simps) (simp add: Normalize_post_def)
    next
      case Scan_next
      from Normalize_first_next [OF this] have "\<exists>a<i1. Subsumes (as ! i2) (as ! a)" by blast
      with inv True have "Normalize_inv orig n as i1 (i2 + 1)"
        by (intro Normalize_inv_drop) auto
      from less.hyps [OF dec this] show ?thesis
        using True b Scan_next by (subst Normalize_loop.simps) simp
    next
      case Scan_done
      have first: "\<not> Valid_expr (as ! i2) (as ! a) \<and> \<not> Subsumes (as ! i2) (as ! a)"
        if "a < i1" for a
        using Normalize_first_done [OF Scan_done, of a] that by simp
      show ?thesis
      proof (cases "Normalize_second as n i2 (i2 + 1) = Scan_next")
        case True2: True
        from Normalize_second_next [OF this]
        obtain k where "i2 + 1 \<le> k" "k < n" "ProperlySubsumes (as ! i2) (as ! k)" by blast
        then have "i2 < k \<and> k < n \<and> ProperlySubsumes (as ! i2) (as ! k)" by simp
        then have "\<exists>k. i2 < k \<and> k < n \<and> ProperlySubsumes (as ! i2) (as ! k)" ..
        with inv True have "Normalize_inv orig n as i1 (i2 + 1)"
          by (intro Normalize_inv_drop) auto
        from less.hyps [OF dec this] show ?thesis
          using True b Scan_done True2 by (subst Normalize_loop.simps) simp
      next
        case False
        have "Normalize_inv orig n (as[i1 := as ! i2]) (i1 + 1) (i2 + 1)"
          using inv True first Normalize_second_done [OF False]
          by (intro Normalize_inv_keep) auto
        from less.hyps [OF dec this] show ?thesis
          using True b Scan_done False by (subst Normalize_loop.simps) simp
      qed
    qed
  qed
qed

lemma Normalize_correct:
  assumes "n \<le> length as"
  shows "\<exists>r as1. Normalize False n as = Inr (r, as1) \<and> Normalize_post as n r as1"
  using assms Normalize_loop_correct [OF Normalize_inv_init [OF assms]]
  by (simp add: Normalize_def)


lemma Normalized_iff:
  "Normalized c \<longleftrightarrow>
     (\<forall>i<h_size c. \<forall>j<h_size c. i \<noteq> j \<longrightarrow>
        \<not> Valid_expr (as' c ! i) (as' c ! j) \<and> \<not> Subsumes (as' c ! i) (as' c ! j))"
  unfolding Normalized_def list_all_iff by (simp add: Ball_def) blast

lemma jointly_valid_pair_take:
  "jointly_valid_pair n (take n as) = jointly_valid_pair n as"
  by (simp add: jointly_valid_pair_def cong: conj_cong)

lemma Clause_ctor_normalized:
  assumes "n \<le> length first"
  shows "\<exists>c. Clause_ctor n first False = Inr c \<and> Normalized c \<and> length (as' c) = n \<and>
             (if jointly_valid_pair n first then h_size c = 1 \<and> as' c ! 0 = Lit_null
              else h_size c \<le> n)"
proof -
  have len: "n \<le> length (take n first)" using assms by simp
  from Normalize_correct [OF len] obtain r as1 where
    norm: "Normalize False n (take n first) = Inr (r, as1)"
    and post: "Normalize_post (take n first) n r as1"
    by blast
  let ?c = "\<lparr>h_size = (if r \<ge> 0 then nat r else 1), as' = as1\<rparr>"
  have N: "Normalized ?c"
    using post
    by (cases "jointly_valid_pair n first")
       (auto simp: Normalized_iff Normalize_post_def jointly_valid_pair_take)
  have "Clause_ctor n first False = Inr ?c"
    using assms norm N by (simp add: Clause_ctor_def)
  moreover have "if jointly_valid_pair n first then h_size ?c = 1 \<and> as' ?c ! 0 = Lit_null
     else h_size ?c \<le> n"
    using post by (auto simp: Normalize_post_def jointly_valid_pair_take)
  moreover have "length (as' ?c) = n"
    using post assms by (simp add: Normalize_post_def)
  ultimately show ?thesis using N by blast
qed

text \<open>
  C6. Every clause that \<open>Clause::Factory::New\<close> builds from an array of \<open>k\<close> literals
  without the shortcut \<open>guaranteed_normalized\<close> is normalized: the constructor
  returns (its assertion \<open>Normalized()\<close> holds), no literal of the clause subsumes the
  literal at another position, no two of its literals are jointly valid, and if the
  array holds a jointly valid pair the clause is the unit clause of the null literal,
  the valid clause.
\<close>

theorem New_normalized:
  assumes "k \<le> length as"
  shows "\<exists>cr cf1 c. New cf False k as = Inr (cr, cf1) \<and> pool cf1 cr = Some c \<and>
           (\<forall>i<h_size c. \<forall>j<h_size c. i \<noteq> j \<longrightarrow>
              \<not> Subsumes (as' c ! i) (as' c ! j) \<and> \<not> Valid_expr (as' c ! i) (as' c ! j)) \<and>
           (jointly_valid_pair k as \<longrightarrow> Clause_valid c \<and> Clause_lits c = [Lit_null])"
proof -
  from Clause_ctor_normalized [OF assms] obtain c where
    c: "Clause_ctor k as False = Inr c" "Normalized c" "length (as' c) = k"
    "if jointly_valid_pair k as then h_size c = 1 \<and> as' c ! 0 = Lit_null else h_size c \<le> k"
    by blast
  have "jointly_valid_pair k as \<longrightarrow> Clause_valid c \<and> Clause_lits c = [Lit_null]"
  proof
    assume v: "jointly_valid_pair k as"
    with c(4) have hs: "h_size c = 1" "as' c ! 0 = Lit_null" by simp_all
    from v have "0 < k" by (auto simp: jointly_valid_pair_def)
    with c(3) have "as' c \<noteq> []" by auto
    with hs have "take 1 (as' c) = [Lit_null]" by (cases "as' c") simp_all
    with hs show "Clause_valid c \<and> Clause_lits c = [Lit_null]"
      by (simp add: Clause_valid_def Clause_unit_def Clause_lits_def Literal_null_def Lit_null_def)
  qed
  with c show ?thesis
    by (simp add: New_def Normalized_iff Let_def)
qed

theorem New_normalized_witness:
  "(2::nat) \<le> length [0x8000000300000002, 0x0000000300000002 :: Literal]
   \<and> jointly_valid_pair 2 [0x8000000300000002, 0x0000000300000002]
   \<and> (\<exists>cr cf1 c. New Clause_Factory_init False 2 [0x8000000300000002, 0x0000000300000002]
                     = Inr (cr, cf1) \<and> pool cf1 cr = Some c
                   \<and> Clause_valid c \<and> Clause_lits c = [Lit_null])"
proof -
  have len: "(2::nat) \<le> length [0x8000000300000002, 0x0000000300000002 :: Literal]" by simp
  have "(0::nat) < 2 \<and> (1::nat) < 2 \<and> (0::nat) \<noteq> 1
        \<and> Valid_expr ([0x8000000300000002, 0x0000000300000002] ! 0)
                     ([0x8000000300000002, 0x0000000300000002] ! 1)"
    by (simp add: Valid_expr_def lhs_def rhs_def pos_def)
  then have v: "jointly_valid_pair 2 [0x8000000300000002, 0x0000000300000002]"
    unfolding jointly_valid_pair_def by blast
  from New_normalized [OF len, of Clause_Factory_init] v len show ?thesis by blast
qed


section \<open>Properties of limbo/term.h\<close>

lemma new_id_low_bit: "(push_bit 1 (w :: u32) OR of_bool b) AND 1 = of_bool b"
proof (rule bit_eqI)
  fix n
  show "bit ((push_bit 1 w OR of_bool b) AND 1) n = bit (of_bool b :: u32) n"
    unfolding bit_and_iff bit_or_iff bit_push_bit_iff bit_of_bool_iff bit_1_iff
    by auto
qed

lemma new_id_drop_bit: "drop_bit 1 (push_bit 1 (w :: u32) OR of_bool b) = take_bit 31 w"
proof (rule bit_eqI)
  fix n
  assume "possible_bit TYPE(u32) n"
  then have n: "n < 32" by (simp add: possible_bit_word)
  show "bit (drop_bit 1 (push_bit 1 w OR of_bool b)) n = bit (take_bit 31 w) n"
    unfolding bit_drop_bit_eq bit_take_bit_iff bit_or_iff bit_push_bit_iff bit_of_bool_iff o_def
    using n by (auto simp: possible_bit_word dest: bit_imp_le_length)
qed

lemma take_bit_31_of_nat: "k < 2 ^ 31 \<Longrightarrow> take_bit 31 (of_nat k :: u32) = of_nat k"
  by (simp add: take_bit_of_nat take_bit_nat_eq_self)

lemma new_id_index:
  assumes "k + 1 < 2 ^ 31"
  shows "unat (drop_bit 1 (push_bit 1 (of_nat (k + 1) :: u32) OR of_bool b) - 1) = k"
proof -
  have "drop_bit 1 (push_bit 1 (of_nat (k + 1) :: u32) OR of_bool b) = of_nat (k + 1)"
    using assms by (simp only: new_id_drop_bit take_bit_31_of_nat)
  moreover have "unat ((of_nat (k + 1) :: u32) - 1) = k"
    using assms by (simp add: unat_of_nat)
  ultimately show ?thesis by simp
qed

lemma new_id_name: "Term_name (push_bit 1 (w :: u32) OR of_bool b) = b"
  by (simp only: Term_name_def new_id_low_bit) simp

text \<open>The two ways out of \<open>CreateTerm\<close> when it returns a term.\<close>

lemma CreateTerm_cases:
  assumes "CreateTerm tf s ts = Inr (t, tf1)"
  obtains (found) "memory tf (sym_sort s) (sym_id s, ts) = Some t" "tf1 = tf"
  | (name) "memory tf (sym_sort s) (sym_id s, ts) = None"
      "CreateTerm_name tf s ts = Inr True"
      "t = push_bit 1 (of_nat (length (name_heap tf) + 1)) OR of_bool True"
      "tf1 = tf\<lparr>memory := (memory tf)(sym_sort s :=
                 (memory tf (sym_sort s))((sym_id s, ts) \<mapsto> t)),
               name_heap := name_heap tf @ [\<lparr>symbol = s, args = ts\<rparr>]\<rparr>"
  | (other) "memory tf (sym_sort s) (sym_id s, ts) = None"
      "CreateTerm_name tf s ts = Inr False"
      "t = push_bit 1 (of_nat (length (variable_and_function_heap tf) + 1)) OR of_bool False"
      "tf1 = tf\<lparr>memory := (memory tf)(sym_sort s :=
                 (memory tf (sym_sort s))((sym_id s, ts) \<mapsto> t)),
               variable_and_function_heap :=
                 variable_and_function_heap tf @ [\<lparr>symbol = s, args = ts\<rparr>]\<rparr>"
  using assms
  by (auto simp: CreateTerm_def Let_def split: if_splits option.splits sum.splits)

lemma CreateTerm_asserts:
  assumes "CreateTerm tf s ts = Inr (t, tf1)"
  shows "\<not> Symbol_null s" and "\<forall>u\<in>set ts. \<not> Term_null u"
    and "sym_arity s = of_nat (length ts)"
  using assms by (auto simp: CreateTerm_def list_all_iff split: if_splits)


lemma CreateTerm_heaps:
  assumes "CreateTerm tf s ts = Inr (t, tf1)"
  shows "\<exists>xs. name_heap tf1 = name_heap tf @ xs"
    and "\<exists>ys. variable_and_function_heap tf1 = variable_and_function_heap tf @ ys"
  using assms by (cases rule: CreateTerm_cases; simp)+

lemma CreateTerm_heaps_bounded:
  assumes "CreateTerm tf s ts = Inr (t, tf1)" and "heaps_bounded tf1"
  shows "heaps_bounded tf"
  using CreateTerm_heaps [OF assms(1)] assms(2)
  by (auto simp: heaps_bounded_def)

lemma Factory_get_append:
  assumes "Factory_get tf i = Inr d"
    and "name_heap tf1 = name_heap tf @ xs"
    and "variable_and_function_heap tf1 = variable_and_function_heap tf @ ys"
  shows "Factory_get tf1 i = Inr d"
  using assms by (auto simp: Factory_get_def Let_def nth_append split: if_splits)

lemma CreateTerm_get_old:
  assumes "CreateTerm tf s ts = Inr (t, tf1)" and "Factory_get tf i = Inr d"
  shows "Factory_get tf1 i = Inr d"
  using CreateTerm_heaps [OF assms(1)] assms(2) by (blast intro: Factory_get_append)

lemma CreateTerm_memory_new:
  assumes "CreateTerm tf s ts = Inr (t, tf1)"
  shows "memory tf1 (sym_sort s) (sym_id s, ts) = Some t"
  using assms by (cases rule: CreateTerm_cases) simp_all

lemma CreateTerm_memory_old:
  assumes "CreateTerm tf s ts = Inr (t, tf1)" and "memory tf so k = Some i"
  shows "memory tf1 so k = Some i"
  using assms by (cases rule: CreateTerm_cases) auto

lemma CreateTerm_memory_cases:
  assumes "CreateTerm tf s ts = Inr (t, tf1)" and "memory tf1 so k = Some i"
  shows "memory tf so k = Some i \<or> (so = sym_sort s \<and> k = (sym_id s, ts) \<and> i = t)"
  using assms by (cases rule: CreateTerm_cases) (auto split: if_splits)

lemma CreateTerm_get_new:
  assumes c: "CreateTerm tf s ts = Inr (t, tf1)" and b: "heaps_bounded tf1"
    and m: "memory tf (sym_sort s) (sym_id s, ts) = None"
  shows "Factory_get tf1 t = Inr \<lparr>symbol = s, args = ts\<rparr>"
  using c
proof (cases rule: CreateTerm_cases)
  case found
  with m show ?thesis by simp
next
  case name
  from name(4) b have len: "length (name_heap tf) + 1 < 2 ^ 31"
    by (simp add: heaps_bounded_def)
  have "t AND 1 = 1" unfolding name(3) new_id_low_bit by simp
  moreover have "unat (drop_bit 1 t - 1) = length (name_heap tf)"
    unfolding name(3) by (rule new_id_index [OF len])
  ultimately show ?thesis
    using name(4) by (simp add: Factory_get_def)
next
  case other
  from other(4) b have len: "length (variable_and_function_heap tf) + 1 < 2 ^ 31"
    by (simp add: heaps_bounded_def)
  have "t AND 1 \<noteq> 1" unfolding other(3) new_id_low_bit by simp
  moreover have "unat (drop_bit 1 t - 1) = length (variable_and_function_heap tf)"
    unfolding other(3) by (rule new_id_index [OF len])
  ultimately show ?thesis
    using other(4) by (simp add: Factory_get_def)
qed

lemma CreateTerm_memory_inv:
  assumes c: "CreateTerm tf s ts = Inr (t, tf1)" and b: "heaps_bounded tf1"
    and inv: "memory_inv tf"
  shows "memory_inv tf1"
  unfolding memory_inv_def
proof (intro allI impI)
  fix so k i
  assume e: "memory tf1 so k = Some i"
  from CreateTerm_memory_cases [OF c e]
  show "\<exists>d. Factory_get tf1 i = Inr d \<and> sym_sort (symbol d) = so
             \<and> (sym_id (symbol d), args d) = k"
  proof
    assume "memory tf so k = Some i"
    with inv obtain d where "Factory_get tf i = Inr d" "sym_sort (symbol d) = so"
      "(sym_id (symbol d), args d) = k"
      unfolding memory_inv_def by blast
    with CreateTerm_get_old [OF c] show ?thesis by blast
  next
    assume new: "so = sym_sort s \<and> k = (sym_id s, ts) \<and> i = t"
    show ?thesis
    proof (cases "memory tf (sym_sort s) (sym_id s, ts)")
      case None
      from CreateTerm_get_new [OF c b None] new show ?thesis by simp
    next
      case (Some j)
      with c have "j = t" by (cases rule: CreateTerm_cases) simp_all
      with Some inv obtain d where "Factory_get tf t = Inr d" "sym_sort (symbol d) = sym_sort s"
        "(sym_id (symbol d), args d) = (sym_id s, ts)"
        unfolding memory_inv_def by blast
      with CreateTerm_get_old [OF c] new show ?thesis by blast
    qed
  qed
qed

lemma memory_inv_init: "memory_inv Factory_init"
  by (simp add: memory_inv_def Factory_init_def)

lemma later_heaps_bounded:
  assumes "later tf tf1" and "heaps_bounded tf1"
  shows "heaps_bounded tf"
  using assms by (induction rule: later.induct) (auto dest: CreateTerm_heaps_bounded)

lemma later_memory_inv:
  assumes "later tf tf1" and "heaps_bounded tf1" and "memory_inv tf"
  shows "memory_inv tf1"
  using assms
proof (induction rule: later.induct)
  case (later_refl tf)
  then show ?case by simp
next
  case (later_step tf tf1 s ts t tf2)
  from later_step.hyps(2) later_step.prems(1) have "heaps_bounded tf1"
    by (rule CreateTerm_heaps_bounded)
  with later_step have "memory_inv tf1" by simp
  with later_step.hyps(2) later_step.prems(1) show ?case
    by (rule CreateTerm_memory_inv)
qed

lemma later_memory_old:
  assumes "later tf tf1" and "memory tf so k = Some i"
  shows "memory tf1 so k = Some i"
  using assms by (induction rule: later.induct) (auto dest: CreateTerm_memory_old)

text \<open>
  The two calls return one term iff the symbols have one \<open>id_\<close> and one sort and the
  argument vectors are equal: the table of the sort is searched for the \<open>id_\<close> with the
  arguments.
\<close>

lemma CreateTerm_interning_key:
  assumes inv: "memory_inv tf"
    and c1: "CreateTerm tf s ts = Inr (t1, tf1)"
    and l: "later tf1 tf2"
    and c2: "CreateTerm tf2 s' ts' = Inr (t2, tf3)"
    and b: "heaps_bounded tf3"
  shows "(t1 = t2) = (sym_id s = sym_id s' \<and> sym_sort s = sym_sort s' \<and> ts = ts')"
proof -
  have b2: "heaps_bounded tf2" using c2 b by (rule CreateTerm_heaps_bounded)
  have b1: "heaps_bounded tf1" using l b2 by (rule later_heaps_bounded)
  have inv1: "memory_inv tf1" using c1 b1 inv by (rule CreateTerm_memory_inv)
  have inv2: "memory_inv tf2" using l b2 inv1 by (rule later_memory_inv)
  have inv3: "memory_inv tf3" using c2 b inv2 by (rule CreateTerm_memory_inv)
  have m1: "memory tf1 (sym_sort s) (sym_id s, ts) = Some t1"
    using c1 by (rule CreateTerm_memory_new)
  have m2: "memory tf2 (sym_sort s) (sym_id s, ts) = Some t1"
    using l m1 by (rule later_memory_old)
  have m3: "memory tf3 (sym_sort s) (sym_id s, ts) = Some t1"
    using c2 m2 by (rule CreateTerm_memory_old)
  have m3': "memory tf3 (sym_sort s') (sym_id s', ts') = Some t2"
    using c2 by (rule CreateTerm_memory_new)
  show ?thesis
  proof
    assume eq: "t1 = t2"
    from inv3 m3 obtain d where d: "Factory_get tf3 t1 = Inr d"
      "sym_sort (symbol d) = sym_sort s" "(sym_id (symbol d), args d) = (sym_id s, ts)"
      unfolding memory_inv_def by blast
    from inv3 m3' obtain d' where d': "Factory_get tf3 t2 = Inr d'"
      "sym_sort (symbol d') = sym_sort s'" "(sym_id (symbol d'), args d') = (sym_id s', ts')"
      unfolding memory_inv_def by blast
    from d d' eq show "sym_id s = sym_id s' \<and> sym_sort s = sym_sort s' \<and> ts = ts'" by auto
  next
    assume "sym_id s = sym_id s' \<and> sym_sort s = sym_sort s' \<and> ts = ts'"
    then have "sym_id s' = sym_id s" "sym_sort s' = sym_sort s" "ts' = ts" by simp_all
    with m2 have "memory tf2 (sym_sort s') (sym_id s', ts') = Some t1" by simp
    with c2 show "t1 = t2" by (cases rule: CreateTerm_cases) simp_all
  qed
qed

text \<open>
  \<open>CreateTerm\<close> returns for symbols whose arity is the number of the arguments only:
  symbols with one \<open>id_\<close> and one sort that come with one argument vector are equal in
  all three fields.
\<close>

lemma CreateTerm_arity:
  assumes "CreateTerm tf s ts = Inr (t, tf1)"
  shows "sym_arity s = of_nat (length ts)"
  using assms by (simp add: CreateTerm_def split: if_splits)

text \<open>
  C5. Interning: when the factory has returned \<open>t1\<close> for \<open>CreateTerm(s, args)\<close> and,
  after any further calls, returns \<open>t2\<close> for \<open>CreateTerm(s', args')\<close>, then
  \<open>t1 == t2\<close> if and only if \<open>s\<close> and \<open>s'\<close> are the same symbol and \<open>args == args'\<close>.
  The same symbol is the same \<open>id_\<close>, sort and arity, and with equal arguments the same
  \<open>id_\<close> and sort. The factory is one that \<open>CreateTerm\<close> has built (\<open>memory_inv\<close>), and
  the heaps hold fewer than \<open>2 ^ 31\<close> entries, the range of the ids.
\<close>

theorem CreateTerm_interning:
  assumes inv: "memory_inv tf"
    and c1: "CreateTerm tf s ts = Inr (t1, tf1)"
    and l: "later tf1 tf2"
    and c2: "CreateTerm tf2 s' ts' = Inr (t2, tf3)"
    and b: "heaps_bounded tf3"
  shows "(t1 = t2) = (s = s' \<and> ts = ts')
     \<and> (t1 = t2) = (sym_id s = sym_id s' \<and> sym_sort s = sym_sort s' \<and> ts = ts')"
proof -
  note key = CreateTerm_interning_key [OF inv c1 l c2 b]
  from CreateTerm_arity [OF c1] CreateTerm_arity [OF c2]
  have "ts = ts' \<Longrightarrow> sym_arity s = sym_arity s'" by simp
  then have "(s = s' \<and> ts = ts')
      = (sym_id s = sym_id s' \<and> sym_sort s = sym_sort s' \<and> ts = ts')"
    by (cases s, cases s') auto
  with key show ?thesis by simp
qed

text \<open>
  With \<open>Symbol::operator==\<close> for the comparison of the symbols: where its assertion
  holds, the terms are equal iff it returns true and the arguments are equal. Where it
  fails the symbols have one \<open>id_\<close> and two sorts or arities, and the terms differ.
\<close>

lemma CreateTerm_interning_Symbol_eq:
  assumes inv: "memory_inv tf"
    and c1: "CreateTerm tf s ts = Inr (t1, tf1)"
    and l: "later tf1 tf2"
    and c2: "CreateTerm tf2 s' ts' = Inr (t2, tf3)"
    and b: "heaps_bounded tf3"
  shows "Symbol_eq s s' = Inr e \<Longrightarrow> (t1 = t2) = (e \<and> ts = ts')"
    and "Symbol_eq s s' = Inl err \<Longrightarrow> t1 \<noteq> t2"
proof -
  note key = CreateTerm_interning_key [OF inv c1 l c2 b]
  note ar = CreateTerm_arity [OF c1] CreateTerm_arity [OF c2]
  show "(t1 = t2) = (e \<and> ts = ts')" if "Symbol_eq s s' = Inr e"
    using that key by (auto simp: Symbol_eq_def split: if_splits)
  show "t1 \<noteq> t2" if "Symbol_eq s s' = Inl err"
    using that key ar by (auto simp: Symbol_eq_def split: if_splits)
qed

lemma rhs_bit31: "\<not> bit (rhs a) 31"
  unfolding rhs_def bit_and_iff bit_not_iff bit_push_bit_iff bit_1_iff by simp

lemma rhs_mask: "rhs a AND NOT (push_bit 31 1) = rhs a"
  unfolding rhs_def by (simp add: and.assoc)

lemma pack_lhs:
  "lhs ((ucast (l :: u32) :: u64) OR push_bit 63 (of_bool p) OR push_bit 32 (ucast (r :: u32))) = l"
  unfolding lhs_def
proof (rule bit_eqI)
  fix n
  assume "possible_bit TYPE(u32) n"
  then have n: "n < 32" by (simp add: possible_bit_word)
  then show "bit (ucast ((ucast l :: u64) OR push_bit 63 (of_bool p) OR push_bit 32 (ucast r)) :: u32) n
             = bit l n"
    unfolding bit_ucast_iff bit_or_iff bit_push_bit_iff bit_of_bool_iff
    by (auto simp: possible_bit_word)
qed

lemma pack_rhs:
  "rhs ((ucast (l :: u32) :: u64) OR push_bit 63 (of_bool p) OR push_bit 32 (ucast (r :: u32)))
   = r AND NOT (push_bit 31 1)"
  unfolding rhs_def
proof (rule bit_eqI)
  fix n
  assume "possible_bit TYPE(u32) n"
  then have n: "n < 32" by (simp add: possible_bit_word)
  then show "bit ((ucast (drop_bit 32 ((ucast l :: u64) OR push_bit 63 (of_bool p)
                 OR push_bit 32 (ucast r))) :: u32) AND NOT (push_bit 31 1)) n
             = bit (r AND NOT (push_bit 31 1)) n"
    unfolding bit_and_iff bit_not_iff bit_ucast_iff bit_drop_bit_eq bit_or_iff bit_push_bit_iff
      bit_of_bool_iff bit_1_iff o_def
    by (auto simp: possible_bit_word dest: bit_imp_le_length)
qed

lemma pack_pos:
  assumes "\<not> bit r 31"
  shows "pos ((ucast (l :: u32) :: u64) OR push_bit 63 (of_bool p) OR push_bit 32 (ucast (r :: u32))) = p"
proof -
  have "drop_bit 63 ((ucast l :: u64) OR push_bit 63 (of_bool p) OR push_bit 32 (ucast r))
        = (of_bool p :: u64)"
  proof (rule bit_eqI)
    fix n
    assume "possible_bit TYPE(u64) n"
    then have n: "n < 64" by (simp add: possible_bit_word)
    then show "bit (drop_bit 63 ((ucast l :: u64) OR push_bit 63 (of_bool p) OR push_bit 32 (ucast r))) n
          = bit (of_bool p :: u64) n"
      unfolding bit_drop_bit_eq bit_or_iff bit_push_bit_iff bit_ucast_iff bit_of_bool_iff o_def
      using assms by (auto simp: possible_bit_word dest: bit_imp_le_length)
  qed
  then show ?thesis by (simp add: pos_def)
qed


lemma all_of_True: "all_of P ts = Inr True \<longleftrightarrow> (\<forall>t\<in>set ts. P t = Inr True)"
  by (induction ts) (auto split: sum.splits)

lemma all_of_False: "all_of P ts = Inr False \<Longrightarrow> \<exists>t\<in>set ts. P t = Inr False"
  by (induction ts) (auto split: sum.splits if_splits)

lemma none_of_True: "(\<forall>t\<in>set ts. P t = Inr False) \<Longrightarrow> none_of P ts = Inr True"
  by (induction ts) auto

lemma Symbol_kinds:
  "Symbol_name s \<Longrightarrow> \<not> Symbol_function s"
  "Symbol_function s \<Longrightarrow> \<not> Symbol_null s"
  by (auto simp: Symbol_name_def Symbol_function_def Symbol_null_def)

lemma CreateTerm_name_eq:
  assumes "CreateTerm_name tf s ts = Inr b"
  shows "b = name_data tf \<lparr>symbol = s, args = ts\<rparr>"
proof (cases "Symbol_name s \<or> \<not> Sort_rigid (sym_sort s) \<or> \<not> Symbol_function s")
  case True
  with assms show ?thesis
    by (auto simp: CreateTerm_name_def name_data_def split: if_splits)
next
  case False
  let ?P = "\<lambda>t. if \<not> Term_name t then Inr False
                 else (case Term_function tf t of Inl e \<Rightarrow> Inl e | Inr f \<Rightarrow> Inr (\<not> f))"
  from False assms have a: "all_of ?P ts = Inr b"
    by (simp add: CreateTerm_name_def)
  have P: "?P t = Inr True \<longleftrightarrow> Term_name t \<and> Term_function tf t = Inr False" for t
    by (auto split: sum.splits)
  show ?thesis
  proof (cases b)
    case True
    with a have "\<forall>t\<in>set ts. ?P t = Inr True" by (simp only: all_of_True)
    with P[symmetric] False True show ?thesis by (simp add: name_data_def)
  next
    case b: False
    with a have "all_of ?P ts = Inr False" by simp
    then obtain t where t: "t \<in> set ts" "?P t = Inr False"
      by (blast dest: all_of_False)
    from t(2) have "\<not> (Term_name t \<and> Term_function tf t = Inr False)"
      by (auto split: if_splits sum.splits)
    with t(1) False b show ?thesis by (auto simp: name_data_def)
  qed
qed

lemma Term_in_get: "Term_in tf t \<longleftrightarrow> (\<exists>d. Factory_get tf t = Inr d)"
  by (auto simp: Term_in_def split: sum.splits)

lemma Term_function_in: "Term_function tf t = Inr b \<Longrightarrow> Term_in tf t"
  by (auto simp: Term_function_def Term_symbol_def Term_in_def split: sum.splits)

lemma CreateTerm_Term_in:
  assumes "CreateTerm tf s ts = Inr (t, tf1)" and "Term_in tf u"
  shows "Term_in tf1 u"
  using assms by (auto simp: Term_in_get dest: CreateTerm_get_old)

lemma CreateTerm_Term_function:
  assumes "CreateTerm tf s ts = Inr (t, tf1)" and "Term_in tf u"
  shows "Term_function tf1 u = Term_function tf u"
  using assms
  by (auto simp: Term_in_get Term_function_def Term_symbol_def dest: CreateTerm_get_old)

lemma CreateTerm_name_data:
  assumes "CreateTerm tf s ts = Inr (t, tf1)" and "\<forall>u\<in>set (args d). Term_in tf u"
  shows "name_data tf1 d = name_data tf d"
  using assms by (auto simp: name_data_def CreateTerm_Term_function)

lemma CreateTerm_new_Term_in:
  assumes c: "CreateTerm tf s ts = Inr (t, tf1)" and b: "heaps_bounded tf1"
    and inv: "memory_inv tf"
  shows "Term_in tf1 t"
proof -
  from CreateTerm_memory_inv [OF c b inv] CreateTerm_memory_new [OF c]
  show ?thesis unfolding memory_inv_def Term_in_get by blast
qed

lemma CreateTerm_heap_inv:
  assumes c: "CreateTerm tf s ts = Inr (t, tf1)" and b: "heaps_bounded tf1"
    and inv: "factory_inv tf" and ts: "\<forall>u\<in>set ts. Term_in tf u"
  shows "factory_inv tf1"
proof -
  from inv have minv: "memory_inv tf" and hinv: "heap_inv tf"
    by (simp_all add: factory_inv_def)
  have m1: "memory_inv tf1" using c b minv by (rule CreateTerm_memory_inv)
  let ?ok = "\<lambda>tf d. \<forall>u\<in>set (args d). Term_in tf u"
  have old_in: "?ok tf1 d" if "?ok tf d" for d
    using that CreateTerm_Term_in [OF c] by blast
  have old_pos: "name_data tf1 d" if "?ok tf d" "name_data tf d" for d
    using that CreateTerm_name_data [OF c that(1)] by simp
  have old_neg: "\<not> name_data tf1 d" if "?ok tf d" "\<not> name_data tf d" for d
    using that CreateTerm_name_data [OF c that(1)] by simp
  from hinv have names: "\<And>d. d \<in> set (name_heap tf) \<Longrightarrow> name_data tf d \<and> ?ok tf d"
    and others: "\<And>d. d \<in> set (variable_and_function_heap tf) \<Longrightarrow> \<not> name_data tf d \<and> ?ok tf d"
    unfolding heap_inv_def by blast+
  let ?d = "\<lparr>symbol = s, args = ts\<rparr>"
  have new: "?ok tf ?d" using ts by simp
  have "heap_inv tf1"
    using c
  proof (cases rule: CreateTerm_cases)
    case found
    with hinv show ?thesis by simp
  next
    case name
    from CreateTerm_name_eq [OF name(2)] have nd: "name_data tf ?d" by simp
    from name(4) have nh: "set (name_heap tf1) = insert ?d (set (name_heap tf))"
      and vh: "variable_and_function_heap tf1 = variable_and_function_heap tf"
      by simp_all
    show ?thesis
      unfolding heap_inv_def nh vh
      using names others new nd old_in old_pos old_neg by blast
  next
    case other
    from CreateTerm_name_eq [OF other(2)] have nd: "\<not> name_data tf ?d" by simp
    from other(4) have nh: "name_heap tf1 = name_heap tf"
      and vh: "set (variable_and_function_heap tf1)
                = insert ?d (set (variable_and_function_heap tf))"
      by simp_all
    show ?thesis
      unfolding heap_inv_def nh vh
      using names others new nd old_in old_pos old_neg by blast
  qed
  with b m1 show ?thesis by (simp add: factory_inv_def)
qed

lemma factory_inv_init: "factory_inv Factory_init"
  by (simp add: factory_inv_def heaps_bounded_def memory_inv_def heap_inv_def Factory_init_def)

lemmas ex_defs = ex_n1_def ex_n2_def ex_g_def ex_f_def ex_tf1_def ex_tf2_def ex_tf3_def
  ex_tfA_def ex_tfB_def Factory_init_def
lemmas eval_defs = Let_def CreateTerm_def CreateTerm_name_def Symbol_null_def Symbol_name_def
  Symbol_function_def Sort_rigid_def Term_null_def Term_name_def Term_function_def
  Term_symbol_def Factory_get_def

lemma ex_step_n1: "CreateTerm Factory_init ex_n1 [] = Inr (3, ex_tf1)"
  by (simp add: ex_defs eval_defs)

lemma ex_step_n2: "CreateTerm ex_tf1 ex_n2 [] = Inr (5, ex_tf2)"
  by (simp add: ex_defs eval_defs)

lemma ex_step_g: "CreateTerm ex_tf2 ex_g [3] = Inr (2, ex_tf3)"
  by (simp add: ex_defs eval_defs)

lemma ex_step_f: "CreateTerm ex_tf1 ex_f [3] = Inr (5, ex_tfA)"
  by (simp add: ex_defs eval_defs)

lemma ex_step_ff: "CreateTerm ex_tfA ex_f [5] = Inr (2, ex_tfB)"
  by (simp add: ex_defs eval_defs)

text \<open>
  Two symbols with one \<open>id_\<close> and two sorts, as \<open>tests/literal.cc\<close> builds them with
  \<open>CreateFunction(1, s1, 1)\<close> and \<open>CreateFunction(1, s2, 1)\<close>: the assertion of
  \<open>Symbol::operator==\<close> fails on them, and the factory, which never compares them,
  returns two terms for the same arguments.
\<close>

lemma CreateTerm_one_id_two_sorts:
  "Symbol_eq ex_g \<lparr>sym_id = 6, sym_sort = 2, sym_arity = 1\<rparr> = Inl AssertionFailed
   \<and> CreateTerm ex_tf3 ex_g [3] = Inr (2, ex_tf3)
   \<and> (\<exists>tf. CreateTerm ex_tf3 \<lparr>sym_id = 6, sym_sort = 2, sym_arity = 1\<rparr> [3] = Inr (4, tf))"
  by (simp add: ex_defs eval_defs Symbol_eq_def)

theorem CreateTerm_interning_witness:
  "memory_inv Factory_init
   \<and> CreateTerm Factory_init ex_n1 [] = Inr (3, ex_tf1)
   \<and> later ex_tf1 ex_tf2
   \<and> CreateTerm ex_tf2 ex_n1 [] = Inr (3, ex_tf2)
   \<and> heaps_bounded ex_tf2
   \<and> ((3 :: Term) = 3) = (ex_n1 = ex_n1 \<and> ([] :: Term list) = [])"
proof -
  have l: "later ex_tf1 ex_tf2"
    using later_refl ex_step_n2 by (rule later_step)
  have c2: "CreateTerm ex_tf2 ex_n1 [] = Inr (3, ex_tf2)"
    by (simp add: ex_defs eval_defs)
  have b: "heaps_bounded ex_tf2"
    by (simp add: heaps_bounded_def ex_tf2_def)
  from CreateTerm_interning [OF memory_inv_init ex_step_n1 l c2 b]
    memory_inv_init ex_step_n1 l c2 b
  show ?thesis by blast
qed

lemma Factory_get_mem:
  assumes "Factory_get tf i = Inr d"
  shows "if Term_name i then d \<in> set (name_heap tf)
         else d \<in> set (variable_and_function_heap tf)"
  using assms by (auto simp: Factory_get_def Let_def Term_name_def split: if_splits)

text \<open>
  C7, as amended. For a function symbol of a rigid sort and arguments all of which have
  the name bit and none of which is a function term, \<open>CreateTerm\<close> returns a term, and
  the term satisfies \<open>name()\<close>; \<open>name()\<close> is the low bit of the id.
\<close>

theorem CreateTerm_name_propagates:
  assumes inv: "factory_inv tf"
    and rigid: "Sort_rigid (sym_sort s)" and fn: "Symbol_function s"
    and arity: "sym_arity s = of_nat (length ts)"
    and ts: "\<forall>t\<in>set ts. Term_name t \<and> Term_function tf t = Inr False"
  shows "\<exists>t tf1. CreateTerm tf s ts = Inr (t, tf1) \<and> Term_name t \<and> Term_name t = (t AND 1 = 1)"
proof -
  let ?d = "\<lparr>symbol = s, args = ts\<rparr>"
  from inv have minv: "memory_inv tf" and hinv: "heap_inv tf"
    by (simp_all add: factory_inv_def)
  have nn: "\<not> Symbol_null s" using fn by (rule Symbol_kinds)
  have nz: "list_all (\<lambda>t. \<not> Term_null t) ts"
    using ts by (auto simp: list_all_iff Term_null_def Term_name_def)
  have nd: "name_data tf ?d" using rigid fn ts by (simp add: name_data_def)
  show ?thesis
  proof (cases "memory tf (sym_sort s) (sym_id s, ts)")
    case None
    have "\<forall>t\<in>set ts. (if \<not> Term_name t then Inr False
             else (case Term_function tf t of Inl e \<Rightarrow> Inl e | Inr f \<Rightarrow> Inr (\<not> f))) = Inr True"
      using ts by simp
    then have "CreateTerm_name tf s ts = Inr True"
      using rigid fn Symbol_kinds(1) [of s]
      by (auto simp add: CreateTerm_name_def all_of_True simp del: all_of.simps)
    with None nn nz arity show ?thesis
      by (simp add: CreateTerm_def Let_def new_id_name Term_name_def)
  next
    case (Some i)
    with minv obtain d where d: "Factory_get tf i = Inr d" "sym_sort (symbol d) = sym_sort s"
      "sym_id (symbol d) = sym_id s" "args d = ts"
      unfolding memory_inv_def by fastforce
    from d(2-4) nd have nd': "name_data tf d"
      by (simp add: name_data_def Symbol_name_def Symbol_function_def)
    have "Term_name i"
    proof (rule ccontr)
      assume "\<not> Term_name i"
      with Factory_get_mem [OF d(1)] have "d \<in> set (variable_and_function_heap tf)" by simp
      with hinv nd' show False by (auto simp: heap_inv_def)
    qed
    with Some nn nz arity show ?thesis
      by (simp add: CreateTerm_def Let_def Term_name_def)
  qed
qed

theorem CreateTerm_name_propagates_witness:
  "factory_inv ex_tf1 \<and> Sort_rigid (sym_sort ex_f) \<and> Symbol_function ex_f
   \<and> sym_arity ex_f = of_nat (length [3 :: Term])
   \<and> Term_name 3 \<and> Term_function ex_tf1 3 = Inr False
   \<and> (\<exists>t tf1. CreateTerm ex_tf1 ex_f [3] = Inr (t, tf1) \<and> Term_name t \<and> Term_name t = (t AND 1 = 1))"
proof -
  have b: "heaps_bounded ex_tf1" by (simp add: heaps_bounded_def ex_tf1_def)
  have inv: "factory_inv ex_tf1"
    using ex_step_n1 b factory_inv_init by (rule CreateTerm_heap_inv) simp
  have h: "Sort_rigid (sym_sort ex_f)" "Symbol_function ex_f"
    "sym_arity ex_f = of_nat (length [3 :: Term])"
    by (simp_all add: ex_defs eval_defs)
  have ts: "Term_name 3 \<and> Term_function ex_tf1 3 = Inr False"
    by (simp add: ex_defs eval_defs)
  then have "\<forall>t\<in>set [3]. Term_name t \<and> Term_function ex_tf1 t = Inr False" by simp
  from CreateTerm_name_propagates [OF inv h this] inv h ts show ?thesis by blast
qed

text \<open>
  C7, as claimed, has all arguments satisfy \<open>name()\<close> and no more. The term \<open>f(n1)\<close>
  of the rigid function \<open>f\<close> is a name (id 5), and it is a function term: \<open>f(f(n1))\<close>
  gets the id 2, which is no name.
\<close>

theorem CreateTerm_nested_rigid_function_not_name:
  "CreateTerm Factory_init ex_n1 [] = Inr (3, ex_tf1)
   \<and> CreateTerm ex_tf1 ex_f [3] = Inr (5, ex_tfA)
   \<and> Sort_rigid (sym_sort ex_f) \<and> Symbol_function ex_f \<and> Term_name 5
   \<and> CreateTerm ex_tfA ex_f [5] = Inr (2, ex_tfB)
   \<and> \<not> Term_name 2"
  using ex_step_n1 ex_step_f ex_step_ff by (simp add: ex_f_def eval_defs)

section \<open>Properties of limbo/literal.h\<close>

lemma clear_bit31: "\<not> bit (r :: u32) 31 \<Longrightarrow> r AND NOT (push_bit 31 1) = r"
proof (rule bit_eqI)
  fix n
  assume b: "\<not> bit r 31"
  show "bit (r AND NOT (push_bit 31 1)) n = bit r n"
  proof (cases "n = 31")
    case True
    with b show ?thesis by (simp add: bit_and_iff)
  next
    case False
    then show ?thesis
      unfolding bit_and_iff bit_not_iff bit_push_bit_iff bit_1_iff
      by (auto simp: possible_bit_word dest: bit_imp_le_length)
  qed
qed

lemma Term_name_not_null: "Term_name t \<Longrightarrow> \<not> Term_null t"
  by (auto simp: Term_name_def Term_null_def)

lemma Term_in_not_null:
  assumes "heaps_bounded tf" and "Term_in tf t"
  shows "\<not> Term_null t"
proof
  assume "Term_null t"
  then have t: "t = 0" by (simp add: Term_null_def)
  have "unat (drop_bit 1 (0 :: u32) - 1) = 2 ^ 32 - 1"
    by (simp add: unsigned_minus_1_eq_mask mask_eq_exp_minus_1)
  with assms t show False
    by (auto simp: Term_in_get Factory_get_def heaps_bounded_def)
qed

text \<open>What the factory knows about a term with the name bit.\<close>

lemma name_term:
  assumes inv: "factory_inv tf" and n: "Term_name r" and d: "Factory_get tf r = Inr d"
  shows "name_data tf d"
    and "Term_function tf r = Inr (Symbol_function (symbol d))"
    and "Term_quasi_primitive tf r = Inr False"
    and "Term_quasi_name tf r = Inr True"
proof -
  from Factory_get_mem [OF d] n have "d \<in> set (name_heap tf)" by simp
  with inv show nd: "name_data tf d" by (simp add: factory_inv_def heap_inv_def)
  show f: "Term_function tf r = Inr (Symbol_function (symbol d))"
    using d by (simp add: Term_function_def Term_symbol_def)
  have so: "Term_sort tf r = Inr (sym_sort (symbol d))"
    using d by (simp add: Term_sort_def Term_symbol_def)
  from nd have "Sort_rigid (sym_sort (symbol d)) \<or> \<not> Symbol_function (symbol d)"
    by (auto simp: name_data_def dest: Symbol_kinds)
  then show "Term_quasi_primitive tf r = Inr False"
    by (auto simp: Term_quasi_primitive_def so f)
  show "Term_quasi_name tf r = Inr True"
  proof (cases "Symbol_function (symbol d)")
    case False
    then show ?thesis by (simp add: Term_quasi_name_def f)
  next
    case True
    with nd have r: "Sort_rigid (sym_sort (symbol d))"
      and a: "\<forall>t\<in>set (args d). Term_function tf t = Inr False"
      by (auto simp: name_data_def dest: Symbol_kinds)
    from a have "none_of (Term_function tf) (args d) = Inr True" by (rule none_of_True)
    with True r d show ?thesis
      by (simp add: Term_quasi_name_def f so no_arg_def Term_args_def)
  qed
qed

text \<open>What the factory knows about a primitive term.\<close>

lemma primitive_term:
  assumes inv: "factory_inv tf" and p: "Term_primitive tf l = Inr True"
  shows "Term_function tf l = Inr True"
    and "Term_quasi_primitive tf l = Inr True"
    and "\<not> Term_null l"
proof -
  from p obtain so where so: "Term_sort tf l = Inr so" "\<not> Sort_rigid so"
    by (auto simp: Term_primitive_def split: sum.splits if_splits)
  from p so show f: "Term_function tf l = Inr True"
    by (auto simp: Term_primitive_def split: sum.splits if_splits)
  from p so f obtain ts where ts: "Term_args tf l = Inr ts"
    "all_of (\<lambda>u. Inr (Term_name u)) ts = Inr True"
    by (auto simp: Term_primitive_def all_args_def split: sum.splits if_splits)
  from ts(1) obtain d where d: "Factory_get tf l = Inr d" "args d = ts"
    by (auto simp: Term_args_def split: sum.splits)
  from ts(2) have names: "\<forall>u\<in>set ts. Term_name u" by (simp add: all_of_True)
  from Factory_get_mem [OF d(1)]
  have "d \<in> set (name_heap tf) \<or> d \<in> set (variable_and_function_heap tf)"
    by (simp split: if_splits)
  with inv d(2) have valid: "\<forall>u\<in>set ts. Term_in tf u"
    by (auto simp: factory_inv_def heap_inv_def)
  have "\<forall>u\<in>set ts. Term_quasi_name tf u = Inr True"
  proof
    fix u
    assume u: "u \<in> set ts"
    with valid obtain du where "Factory_get tf u = Inr du" by (auto simp: Term_in_get)
    with inv names u show "Term_quasi_name tf u = Inr True" by (blast intro: name_term(4))
  qed
  then have "all_of (Term_quasi_name tf) ts = Inr True" by (simp add: all_of_True)
  with so f ts(1) show "Term_quasi_primitive tf l = Inr True"
    by (simp add: Term_quasi_primitive_def all_args_def)
  from inv d(1) show "\<not> Term_null l"
    by (intro Term_in_not_null [of tf]) (auto simp: factory_inv_def Term_in_get)
qed

lemma Literal_ctor_primitive:
  assumes inv: "factory_inv tf" and pl: "Term_primitive tf l = Inr True"
    and nr: "Term_name r" and ir: "Term_in tf r" and b: "\<not> bit r 31"
  shows "\<exists>a. Literal_ctor tf p l r = Inr a \<and> lhs a = l \<and> rhs a = r \<and> pos a = p"
proof -
  from ir obtain d where d: "Factory_get tf r = Inr d" by (auto simp: Term_in_get)
  note R = name_term [OF inv nr d]
  note L = primitive_term [OF inv pl]
  let ?a = "(ucast l :: u64) OR push_bit 63 (of_bool p) OR push_bit 32 (ucast r)"
  have pack1: "lhs ?a = l" by (rule pack_lhs)
  have pack2: "rhs ?a = r" unfolding pack_rhs using b by (rule clear_bit31)
  have pack3: "pos ?a = p" using b by (rule pack_pos)
  note pack = pack1 pack2 pack3
  have "Literal_ctor tf p l r = Inr ?a"
  proof (cases "l < r")
    case True
    then show ?thesis
      using L R(2,3) nr pack
      by (simp add: Literal_ctor_def Term_name_not_null)
  next
    case False
    then show ?thesis
      using L R(2,3) nr pack
      by (cases "Symbol_function (symbol d)") (simp_all add: Literal_ctor_def Term_name_not_null)
  qed
  with pack show ?thesis by blast
qed

lemma primitive_sides:
  assumes "lhs a' = lhs a" and "rhs a' = rhs a"
  shows "primitive tf a' = primitive tf a"
  using assms by (simp add: primitive_def split: sum.splits)

text \<open>
  C8. For primitive literals \<open>a\<close> and \<open>b\<close> over terms of the factory,
  \<open>Complementary(a, b)\<close> implies \<open>Valid(a.flip(), b.flip())\<close>: both flips are built
  (the assertions of the constructor hold), and \<open>Valid\<close>, whose assertions hold as
  well, returns true.
\<close>

theorem Complementary_flip_Valid:
  assumes inv: "factory_inv tf"
    and ia: "Literal_in tf a" and ib: "Literal_in tf b"
    and c: "Complementary tf a b = Inr True"
  shows "\<exists>a' b'. flip tf a = Inr a' \<and> flip tf b = Inr b' \<and> Valid tf a' b' = Inr True"
proof -
  from c have pa: "primitive tf a = Inr True" and pb: "primitive tf b = Inr True"
    and ce: "Complementary_expr a b"
    by (auto simp: Complementary_def split: sum.splits if_splits)
  from pa have la: "Term_primitive tf (lhs a) = Inr True" and ra: "Term_name (rhs a)"
    by (auto simp: primitive_def split: sum.splits if_splits)
  from pb have lb: "Term_primitive tf (lhs b) = Inr True" and rb: "Term_name (rhs b)"
    by (auto simp: primitive_def split: sum.splits if_splits)
  from ia ib have "Term_in tf (rhs a)" "Term_in tf (rhs b)" by (simp_all add: Literal_in_def)
  from Literal_ctor_primitive [OF inv la ra this(1) rhs_bit31, of "\<not> pos a"]
  obtain a' where a': "flip tf a = Inr a'" "lhs a' = lhs a" "rhs a' = rhs a" "pos a' = (\<not> pos a)"
    by (auto simp: flip_def)
  from Literal_ctor_primitive [OF inv lb rb \<open>Term_in tf (rhs b)\<close> rhs_bit31, of "\<not> pos b"]
  obtain b' where b': "flip tf b = Inr b'" "lhs b' = lhs b" "rhs b' = rhs b" "pos b' = (\<not> pos b)"
    by (auto simp: flip_def)
  have "primitive tf a' = Inr True" "primitive tf b' = Inr True"
    using pa pb primitive_sides [OF a'(2,3)] primitive_sides [OF b'(2,3)] by simp_all
  moreover have "Valid_expr a' b'"
    using ce a'(2-4) b'(2-4) by (auto simp: Complementary_expr_def Valid_expr_def)
  ultimately have "Valid tf a' b' = Inr True" by (simp add: Valid_def)
  with a'(1) b'(1) show ?thesis by blast
qed

lemma ex_tf3_inv: "factory_inv ex_tf3"
proof -
  have "factory_inv ex_tf1"
    using ex_step_n1 _ factory_inv_init
    by (rule CreateTerm_heap_inv) (simp_all add: heaps_bounded_def ex_tf1_def)
  then have "factory_inv ex_tf2"
    using ex_step_n2
    by (intro CreateTerm_heap_inv [OF ex_step_n2]) (simp_all add: heaps_bounded_def ex_tf2_def)
  then show ?thesis
    by (intro CreateTerm_heap_inv [OF ex_step_g])
       (simp_all add: heaps_bounded_def ex_tf3_def ex_tf2_def Term_in_def Factory_get_def)
qed

lemmas lit_defs = lhs_def rhs_def pos_def primitive_def Term_primitive_def Term_sort_def
  Term_args_def all_args_def Literal_in_def Term_in_def Complementary_def
  Complementary_expr_def

theorem Complementary_flip_Valid_witness:
  "factory_inv ex_tf3
   \<and> Literal_in ex_tf3 0x8000000300000002
   \<and> Literal_in ex_tf3 0x8000000500000002
   \<and> Complementary ex_tf3 0x8000000300000002 0x8000000500000002 = Inr True
   \<and> (\<exists>a' b'. flip ex_tf3 0x8000000300000002 = Inr a'
              \<and> flip ex_tf3 0x8000000500000002 = Inr b'
              \<and> Valid ex_tf3 a' b' = Inr True)"
proof -
  have ia: "Literal_in ex_tf3 0x8000000300000002"
    by (simp add: ex_defs eval_defs lit_defs)
  have ib: "Literal_in ex_tf3 0x8000000500000002"
    by (simp add: ex_defs eval_defs lit_defs)
  have c: "Complementary ex_tf3 0x8000000300000002 0x8000000500000002 = Inr True"
    by (simp add: ex_defs eval_defs lit_defs)
  from Complementary_flip_Valid [OF ex_tf3_inv ia ib c] ex_tf3_inv ia ib c
  show ?thesis by blast
qed

lemma flip_example:
  "Eq ex_tf3 2 3 = Inr 0x8000000300000002 \<and> Eq ex_tf3 5 2 = Inr 0x8000000500000002
   \<and> flip ex_tf3 0x8000000300000002 = Inr 0x0000000300000002"
  by (simp add: ex_defs eval_defs lit_defs Eq_def flip_def Literal_ctor_def Term_quasi_primitive_def)


end
